theory Spec2Isabelle
  imports Main "HOL-Library.Log_Nat" "HOL-Library.Sublist"
begin

section \<open>Command line tokenizer (transcode.go, parseCommandLine)\<close>

text \<open>
  Go strings are byte sequences; a \<^typ>\<open>string\<close> is the list of bytes. The characters the
  tokenizer tests for are named here by their byte value.
\<close>

definition dquote :: char where "dquote = CHR 0x22"
definition squote :: char where "squote = CHR 0x27"
definition bslash :: char where "bslash = CHR 0x5C"
definition space :: char where "space = CHR 0x20"
definition tab :: char where "tab = CHR 0x09"

text \<open>
  \<open>string(c)\<close> for a byte \<open>c\<close> is the UTF-8 encoding of the code point \<open>c\<close>: one byte below
  0x80, two bytes from 0x80 on.
\<close>

definition string_of_byte :: "char \<Rightarrow> string" where
  "string_of_byte c =
     (if of_char c < (128::nat) then [c]
      else [char_of (192 + of_char c div (64::nat)), char_of (128 + of_char c mod (64::nat))])"

datatype tok_state = Start | Arg | Quotes

record tokenizer =
  args :: "string list"
  state :: tok_state
  current :: string
  quote :: string
  escapeNext :: bool

datatype cmd_error = UnclosedQuote string

text \<open>The body of the \<open>for\<close> loop, one input byte at a time, in the order of the source.\<close>

definition tok_step :: "tokenizer \<Rightarrow> char \<Rightarrow> tokenizer" where
  "tok_step t c =
     (if state t = Quotes then
        (if string_of_byte c \<noteq> quote t then t\<lparr>current := current t @ string_of_byte c\<rparr>
         else t\<lparr>args := args t @ [current t], current := [], state := Start\<rparr>)
      else if escapeNext t then
        t\<lparr>current := current t @ string_of_byte c, escapeNext := False\<rparr>
      else if c = bslash then
        t\<lparr>escapeNext := True\<rparr>
      else if c = dquote \<or> c = squote then
        t\<lparr>state := Quotes, quote := string_of_byte c\<rparr>
      else if state t = Arg then
        (if c = space \<or> c = tab then
           t\<lparr>args := args t @ [current t], current := [], state := Start\<rparr>
         else t\<lparr>current := current t @ string_of_byte c\<rparr>)
      else if c \<noteq> space \<and> c \<noteq> tab then
        t\<lparr>state := Arg, current := current t @ string_of_byte c\<rparr>
      else t)"

definition tok_init :: tokenizer where
  "tok_init = \<lparr>args = [], state = Start, current = [], quote = [dquote], escapeNext = True\<rparr>"

fun tok_loop :: "tokenizer \<Rightarrow> string \<Rightarrow> tokenizer" where
  "tok_loop t [] = t"
| "tok_loop t (c # cs) = tok_loop (tok_step t c) cs"

definition tok_finish :: "string \<Rightarrow> tokenizer \<Rightarrow> string list \<times> cmd_error option" where
  "tok_finish command t =
     (if state t = Quotes then ([], Some (UnclosedQuote command))
      else if current t \<noteq> [] then (args t @ [current t], None)
      else (args t, None))"

definition parseCommandLine :: "string \<Rightarrow> string list \<times> cmd_error option" where
  "parseCommandLine command = tok_finish command (tok_loop tok_init command)"



section \<open>Decimal rendering (strconv.Itoa, strconv.FormatInt with base 10)\<close>

definition digit_char :: "int \<Rightarrow> char" where
  "digit_char d = char_of (48 + d)"

text \<open>The decimal digits of a number that is not negative, most significant first.\<close>

function decimal :: "int \<Rightarrow> string" where
  "decimal n = (if n < 10 then [digit_char n] else decimal (n div 10) @ [digit_char (n mod 10)])"
  by pat_completeness auto
termination
  by (relation "measure nat") auto

declare decimal.simps [simp del]

definition FormatInt :: "int \<Rightarrow> string" where
  "FormatInt i = (if i < 0 then CHR ''-'' # decimal (- i) else decimal i)"

definition Itoa :: "int \<Rightarrow> string" where
  "Itoa i = FormatInt i"

section \<open>Stream codec planner (transcode.go, generateStreamArgs)\<close>

text \<open>
  A probed stream is a \<open>map[string]interface{}\<close>. The values the planner looks at are
  strings (compared with the codec names) and the number under \<open>index\<close>, which arrives as
  a \<open>float64\<close> or a \<open>json.Number\<close>.
\<close>

datatype jvalue = JString string | JFloat64 rat | JNumber string | JOther

type_synonym stream = "string \<rightharpoonup> jvalue"

record gen_state =
  gargs :: "string list"
  outputVideoIndex :: int
  outputAudioIndex :: int
  outputSubtitleIndex :: int

text \<open>
  \<open>getStreamAlias\<close>: the conversion of the \<open>index\<close> value to an \<open>int\<close> (type assertion,
  \<open>json.Number.Float64\<close>, \<open>int(indexF)\<close>) is library code; it is the parameter \<open>toInt\<close>.
\<close>

definition getStreamAlias :: "(jvalue option \<Rightarrow> int) \<Rightarrow> stream \<Rightarrow> int \<times> string" where
  "getStreamAlias toInt stream =
     (let inputIndex = toInt (stream ''index'') in (inputIndex, ''0:'' @ Itoa inputIndex))"

definition video_args :: "string \<Rightarrow> int \<Rightarrow> jvalue option \<Rightarrow> string list" where
  "video_args streamAlias v codec_name =
     (if codec_name \<in> Some ` JString ` {''mjpeg'', ''png'', ''bmp'', ''webp'', ''tiff'', ''j2k'', ''jpeg2000''}
      then [''-map'', streamAlias, ''-c:v:'' @ Itoa v, ''copy'']
      else [''-map'', streamAlias,
            ''-c:v:'' @ Itoa v, ''mpeg2video'',
            ''-b:v:'' @ Itoa v, ''6000k'',
            ''-minrate:v:'' @ Itoa v, ''3000k'',
            ''-maxrate:v:'' @ Itoa v, ''8000k'',
            ''-bufsize:v:'' @ Itoa v, ''1835k'',
            ''-g:v:'' @ Itoa v, ''15'',
            ''-bf:v:'' @ Itoa v, ''2'',
            ''-flags:v:'' @ Itoa v, ''+ilme+ildct'',
            ''-filter:v:'' @ Itoa v, ''fieldorder=tff'',
            ''-aspect:v:'' @ Itoa v, ''16:9'',
            ''-s:v:'' @ Itoa v, ''720x576'',
            ''-r:v:'' @ Itoa v, ''25'',
            ''-vsync'', ''cfr''])"

text \<open>The audio \<open>switch\<close>: the arguments appended and the value left in \<open>defaultFilter\<close>.\<close>

definition audio_args :: "string \<Rightarrow> int \<Rightarrow> jvalue option \<Rightarrow> string list \<times> bool" where
  "audio_args streamAlias a codec_name =
     (if codec_name \<in> Some ` JString ` {''aac'', ''dca'', ''ac3'', ''mp2'', ''mp3'', ''opus'', ''flac'', ''pcm_s16le''}
      then ([''-map'', streamAlias,
             ''-c:a:'' @ Itoa a, ''ac3'',
             ''-b:a:'' @ Itoa a, ''224k'',
             ''-ac:a:'' @ Itoa a, ''2''], True)
      else if codec_name \<in> Some ` JString ` {''eac3'', ''dts''}
      then ([''-map'', streamAlias,
             ''-c:a:'' @ Itoa a, ''ac3'',
             ''-b:a:'' @ Itoa a, ''448k'',
             ''-ac:a:'' @ Itoa a, ''2''], True)
      else if codec_name = Some (JString ''truehd'')
      then ([''-map'', streamAlias,
             ''-c:a:'' @ Itoa a, ''ac3'',
             ''-b:a:'' @ Itoa a, ''640k'',
             ''-ac:a:'' @ Itoa a, ''6'',
             ''-ar:a:'' @ Itoa a, ''48000'',
             ''-sample_fmt:a:3'' @ Itoa a, ''fltp'',
             ''-filter:a:'' @ Itoa a,
             ''aresample=ocl=stereo:async=10000,'' @ ''channelmap=channel_layout=5.1''], False)
      else ([''-map'', streamAlias, ''-c:a:'' @ Itoa a, ''copy''], False))"

definition subtitle_args :: "string \<Rightarrow> int \<Rightarrow> jvalue option \<Rightarrow> string list" where
  "subtitle_args streamAlias n codec_name =
     (if codec_name \<in> Some ` JString ` {''srt'', ''dvdsub''}
      then [''-map'', streamAlias, ''-c:s:'' @ Itoa n, ''dvbsub'', ''-fix_sub_duration'',
            ''-canvas_size'', ''720x576'']
      else [''-map'', streamAlias, ''-c:s:'' @ Itoa n, ''copy''])"

text \<open>The body of the loop over the streams.\<close>

definition stream_step :: "(jvalue option \<Rightarrow> int) \<Rightarrow> gen_state \<Rightarrow> stream \<Rightarrow> gen_state" where
  "stream_step toInt g stream =
     (let streamAlias = snd (getStreamAlias toInt stream) in
      if stream ''codec_type'' = Some (JString ''video'') then
        g\<lparr>gargs := gargs g @ video_args streamAlias (outputVideoIndex g) (stream ''codec_name''),
          outputVideoIndex := outputVideoIndex g + 1\<rparr>
      else if stream ''codec_type'' = Some (JString ''audio'') then
        (let (new, defaultFilter) = audio_args streamAlias (outputAudioIndex g) (stream ''codec_name'')
         in g\<lparr>gargs := gargs g @ new @
                  (if defaultFilter
                   then [''-filter:a:'' @ Itoa (outputAudioIndex g), ''aresample=async=10000'']
                   else []),
                outputAudioIndex := outputAudioIndex g + 1\<rparr>)
      else if stream ''codec_type'' = Some (JString ''subtitle'') then
        g\<lparr>gargs := gargs g @ subtitle_args streamAlias (outputSubtitleIndex g) (stream ''codec_name''),
          outputSubtitleIndex := outputSubtitleIndex g + 1\<rparr>
      else g\<lparr>gargs := gargs g @ [''-map'', streamAlias, ''-c'', ''copy'']\<rparr>)"

definition gen_init :: gen_state where
  "gen_init = \<lparr>gargs = [], outputVideoIndex = 0, outputAudioIndex = 0, outputSubtitleIndex = 0\<rparr>"

definition generateStreamArgs :: "(jvalue option \<Rightarrow> int) \<Rightarrow> stream list \<Rightarrow> string list" where
  "generateStreamArgs toInt streams = gargs (foldl (stream_step toInt) gen_init streams)"

text \<open>The number of streams of one codec type in a list: the output slot of the next one.\<close>

definition count_type :: "string \<Rightarrow> stream list \<Rightarrow> int" where
  "count_type ty streams = int (length (filter (\<lambda>s. s ''codec_type'' = Some (JString ty)) streams))"

text \<open>Two probed streams used as a concrete input.\<close>

definition ex_video :: stream where
  "ex_video = [''index'' \<mapsto> JNumber ''0'', ''codec_type'' \<mapsto> JString ''video'', ''codec_name'' \<mapsto> JString ''mjpeg'']"
definition ex_audio :: stream where
  "ex_audio = [''index'' \<mapsto> JNumber ''1'', ''codec_type'' \<mapsto> JString ''audio'', ''codec_name'' \<mapsto> JString ''truehd'']"

definition ex_toInt :: "jvalue option \<Rightarrow> int" where
  "ex_toInt v = (if v = Some (JNumber ''1'') then 1 else 0)"

section \<open>Machine integers and library functions of the range converter\<close>

text \<open>
  \<open>int64\<close> and \<open>time.Duration\<close> values are integers in \<open>[-2^63, 2^63)\<close>; arithmetic that
  can leave the range wraps around.
\<close>

definition is_int64 :: "int \<Rightarrow> bool" where
  "is_int64 x = (- (2 ^ 63) \<le> x \<and> x < 2 ^ 63)"

definition wrap64 :: "int \<Rightarrow> int" where
  "wrap64 x = (x + 2 ^ 63) mod 2 ^ 64 - 2 ^ 63"

text \<open>Go's \<open>/\<close> and \<open>%\<close> on integers truncate towards zero.\<close>

definition go_div :: "int \<Rightarrow> int \<Rightarrow> int" where
  "go_div a b = (if (a < 0) = (b < 0) then \<bar>a\<bar> div \<bar>b\<bar> else - (\<bar>a\<bar> div \<bar>b\<bar>))"

definition go_mod :: "int \<Rightarrow> int \<Rightarrow> int" where
  "go_mod a b = a - b * go_div a b"

subsection \<open>strconv.ParseInt with base 10 and 64 bits\<close>

datatype num_error = ErrSyntax | ErrRange

definition is_digit :: "char \<Rightarrow> bool" where
  "is_digit c = (48 \<le> (of_char c :: int) \<and> (of_char c :: int) \<le> 57)"

definition digit_val :: "char \<Rightarrow> int" where
  "digit_val c = of_char c - 48"

text \<open>
  The loop of \<open>ParseUint\<close>: \<open>n\<close> is the value so far. A byte that is no digit is a syntax
  error; a value that leaves 64 bits is a range error, reported where the loop meets it.
\<close>

fun ParseUint_loop :: "int \<Rightarrow> string \<Rightarrow> num_error + int" where
  "ParseUint_loop n [] = Inr n"
| "ParseUint_loop n (c # cs) =
     (if \<not> is_digit c then Inl ErrSyntax
      else if n \<ge> (2 ^ 64 - 1) div 10 + 1 then Inl ErrRange
      else if n * 10 + digit_val c > 2 ^ 64 - 1 then Inl ErrRange
      else ParseUint_loop (n * 10 + digit_val c) cs)"

definition ParseUint :: "string \<Rightarrow> num_error + int" where
  "ParseUint s = (if s = [] then Inl ErrSyntax else ParseUint_loop 0 s)"

definition ParseInt :: "string \<Rightarrow> num_error + int" where
  "ParseInt s =
     (if s = [] then Inl ErrSyntax
      else let neg = (hd s = CHR ''-'');
               s' = (if hd s = CHR ''+'' \<or> hd s = CHR ''-'' then tl s else s)
           in case ParseUint s' of
                Inl ErrSyntax \<Rightarrow> Inl ErrSyntax
              | Inl ErrRange \<Rightarrow> Inl ErrRange
              | Inr un \<Rightarrow>
                  if \<not> neg \<and> un \<ge> 2 ^ 63 then Inl ErrRange
                  else if neg \<and> un > 2 ^ 63 then Inl ErrRange
                  else Inr (if neg then - un else un))"

subsection \<open>strings.SplitN with a one-byte separator and limit 2\<close>

text \<open>
  The result has one element, the whole string, when the separator does not occur (also
  for the empty string), and otherwise two: the text before the first separator and the
  text after it.
\<close>

definition SplitN2 :: "string \<Rightarrow> char \<Rightarrow> string list" where
  "SplitN2 s sep =
     (if sep \<in> set s then [takeWhile (\<lambda>c. c \<noteq> sep) s, tl (dropWhile (\<lambda>c. c \<noteq> sep) s)]
      else [s])"

subsection \<open>big.Rat.Float64, math.Round and the conversion to int64\<close>

text \<open>
  The value of a \<open>float64\<close> is a rational number. \<open>Float64\<close> on a \<open>big.Rat\<close> returns the
  nearest \<open>float64\<close>, ties to the even mantissa. For a positive \<open>x\<close> with
  \<open>2^k \<le> x < 2^(k+1)\<close> the neighbours are the multiples of \<open>2^(k-52)\<close>. The definition
  covers the normal range of \<open>float64\<close>, where every product of \<open>int64\<close> values divided by
  an \<open>int64\<close> value lies.
\<close>

definition round_half_even :: "rat \<Rightarrow> int" where
  "round_half_even x =
     (let f = \<lfloor>x\<rfloor>; r = x - of_int f
      in if r < 1 / 2 then f else if 1 / 2 < r then f + 1 else if even f then f else f + 1)"

definition floor_log2 :: "rat \<Rightarrow> int" where
  "floor_log2 x = (if 1 \<le> x then bitlen \<lfloor>x\<rfloor> - 1 else - bitlen (\<lceil>1 / x\<rceil> - 1))"

definition float64_round :: "rat \<Rightarrow> rat" where
  "float64_round x =
     (if x = 0 then 0
      else let e = floor_log2 \<bar>x\<bar> - 52
           in sgn x * of_int (round_half_even (\<bar>x\<bar> / 2 powi e)) * 2 powi e)"

text \<open>\<open>math.Round\<close>: to the nearest integer, halves away from zero.\<close>

definition go_round :: "rat \<Rightarrow> int" where
  "go_round x = (if x < 0 then - \<lfloor>- x + 1 / 2\<rfloor> else \<lfloor>x + 1 / 2\<rfloor>)"

text \<open>
  The conversion \<open>time.Duration(f)\<close> of an integral \<open>float64\<close>. Go leaves the result open
  when the value does not fit; the least \<open>int64\<close> is what amd64 produces.
\<close>

definition int64_of_float :: "int \<Rightarrow> int" where
  "int64_of_float v = (if is_int64 v then v else - (2 ^ 63))"

section \<open>Byte range to play time (dlna.go)\<close>

record NPTRange =
  Start :: int
  End :: int
  StartByte :: int
  EndByte :: int

definition NPTRange_zero :: NPTRange where
  "NPTRange_zero = \<lparr>Start = 0, End = 0, StartByte = 0, EndByte = 0\<rparr>"

datatype range_error =
    UnsupportedRangeFormat string
  | InvalidRangeFormat
  | InvalidStartByte
  | InvalidEndByte
  | RangeOutOfBounds

definition calculateNPTPosition :: "int \<Rightarrow> int \<Rightarrow> int \<Rightarrow> int" where
  "calculateNPTPosition bytePos totalSize duration =
     (if totalSize \<le> 0 then 0
      else let position = Fract bytePos totalSize;
               nanos = position * of_int duration;
               durNanos = float64_round nanos
           in int64_of_float (go_round durNanos))"

definition prefix_bytes :: string where
  "prefix_bytes = ''bytes=''"

text \<open>The test of the fast path: the header asks for the whole resource.\<close>

definition whole_resource :: "string \<Rightarrow> int \<Rightarrow> bool" where
  "whole_resource rangeHeader totalSize =
     (rangeHeader = prefix_bytes @ ''0-'' \<or>
      rangeHeader = prefix_bytes @ ''0-'' @ FormatInt (wrap64 (totalSize - 1)))"

text \<open>
  The function takes the position calculation as an argument, so that a result which
  holds for every \<open>calc\<close> is seen not to come from it. \<open>ParseHTTPRangeToNPTRange\<close> is the
  instance with \<open>calculateNPTPosition\<close>.
\<close>

definition ParseHTTPRange_with ::
  "(int \<Rightarrow> int \<Rightarrow> int \<Rightarrow> int) \<Rightarrow> string \<Rightarrow> int \<Rightarrow> int \<Rightarrow> NPTRange \<times> range_error option" where
  "ParseHTTPRange_with calc rangeHeader totalSize duration =
     (if whole_resource rangeHeader totalSize
      then (\<lparr>Start = 0, End = duration, StartByte = 0, EndByte = wrap64 (totalSize - 1)\<rparr>, None)
      else if \<not> prefix prefix_bytes rangeHeader
      then (NPTRange_zero, Some (UnsupportedRangeFormat rangeHeader))
      else let rangeSpec = drop (length prefix_bytes) rangeHeader;
               parts = SplitN2 rangeSpec (CHR ''-'')
           in if length parts \<noteq> 2 then (NPTRange_zero, Some InvalidRangeFormat)
              else case ParseInt (parts ! 0) of
                     Inl _ \<Rightarrow> (NPTRange_zero, Some InvalidStartByte)
                   | Inr startByte \<Rightarrow>
                      (case (if parts ! 1 \<noteq> [] then ParseInt (parts ! 1)
                             else Inr (wrap64 (totalSize - 1))) of
                         Inl _ \<Rightarrow> (NPTRange_zero, Some InvalidEndByte)
                       | Inr endByte \<Rightarrow>
                           if startByte < 0 \<or> endByte \<ge> totalSize \<or> startByte > endByte
                           then (NPTRange_zero, Some RangeOutOfBounds)
                           else let startTime = calc startByte totalSize duration;
                                    endTime = calc (wrap64 (endByte + 1)) totalSize duration;
                                    endTime = (if endTime > duration then duration else endTime)
                                in (\<lparr>Start = startTime, End = endTime,
                                     StartByte = startByte, EndByte = endByte\<rparr>, None)))"

definition ParseHTTPRangeToNPTRange :: "string \<Rightarrow> int \<Rightarrow> int \<Rightarrow> NPTRange \<times> range_error option" where
  "ParseHTTPRangeToNPTRange = ParseHTTPRange_with calculateNPTPosition"

section \<open>fmt.Sscanf with the format of the play time\<close>

subsection \<open>Runes of the input (utf8.DecodeRune)\<close>

definition RuneError :: int where
  "RuneError = 0xFFFD"

definition cont_byte :: "int \<Rightarrow> bool" where
  "cont_byte b = (0x80 \<le> b \<and> b \<le> 0xBF)"

text \<open>
  The first rune of a byte sequence that is not empty, and the number of bytes it takes.
  A sequence that is no valid encoding gives \<open>RuneError\<close> and takes one byte.
\<close>

definition DecodeRune :: "string \<Rightarrow> int \<times> nat" where
  "DecodeRune p =
     (case map of_char p of
        [] \<Rightarrow> (RuneError, 0)
      | p0 # bs \<Rightarrow>
          if p0 < 0x80 then (p0, 1)
          else if p0 < 0xC2 \<or> 0xF4 < p0 then (RuneError, 1)
          else
            let sz = (if p0 < 0xE0 then 2 else if p0 < 0xF0 then 3 else (4::nat));
                lo = (if p0 = 0xE0 then 0xA0 else if p0 = 0xF0 then 0x90 else 0x80);
                hi = (if p0 = 0xED then 0x9F else if p0 = 0xF4 then 0x8F else 0xBF)
            in if length bs < sz - 1 then (RuneError, 1)
               else if bs ! 0 < lo \<or> hi < bs ! 0 then (RuneError, 1)
               else if sz = 2 then (p0 mod 32 * 64 + bs ! 0 mod 64, 2)
               else if \<not> cont_byte (bs ! 1) then (RuneError, 1)
               else if sz = 3 then (p0 mod 16 * 4096 + bs ! 0 mod 64 * 64 + bs ! 1 mod 64, 3)
               else if \<not> cont_byte (bs ! 2) then (RuneError, 1)
               else (p0 mod 8 * 262144 + bs ! 0 mod 64 * 4096 + bs ! 1 mod 64 * 64
                       + bs ! 2 mod 64, 4))"

text \<open>\<open>isSpace\<close> of package fmt: the table of space runes.\<close>

definition isSpace :: "int \<Rightarrow> bool" where
  "isSpace r =
     (r < 0x10000 \<and>
      ((0x0009 \<le> r \<and> r \<le> 0x000D) \<or> r = 0x0020 \<or> r = 0x0085 \<or> r = 0x00A0 \<or>
       r = 0x1680 \<or> (0x2000 \<le> r \<and> r \<le> 0x200A) \<or> (0x2028 \<le> r \<and> r \<le> 0x2029) \<or>
       r = 0x202F \<or> r = 0x205F \<or> r = 0x3000))"

subsection \<open>The scan state\<close>

text \<open>
  The state \<open>ss\<close> of a scan: the input not yet read, the number of runes read, and the
  limit on that number for the operand being scanned. Unreading a rune is going back to
  the state before it was read.
\<close>

record ss =
  input :: string
  count :: int
  argLimit :: int

definition hugeWid :: int where
  "hugeWid = 2 ^ 30"

datatype scan_error =
    ErrEOF
  | ErrUnexpectedEOF
  | ErrUnexpectedNewline
  | ErrExpectedInteger
  | ErrInputMismatch
  | ErrParse num_error

text \<open>\<open>ReadRune\<close>: \<open>None\<close> is end of input, also when the limit of the operand is reached.\<close>

definition ReadRune :: "ss \<Rightarrow> (int \<times> ss) option" where
  "ReadRune s =
     (if count s \<ge> argLimit s \<or> input s = [] then None
      else Some (fst (DecodeRune (input s)),
                 s\<lparr>input := drop (snd (DecodeRune (input s))) (input s), count := count s + 1\<rparr>))"

lemma DecodeRune_size: "p \<noteq> [] \<Longrightarrow> 0 < snd (DecodeRune p)"
  by (cases p) (simp_all add: DecodeRune_def Let_def)

lemma ReadRune_shorter: "ReadRune s = Some (r, s') \<Longrightarrow> length (input s') < length (input s)"
  using DecodeRune_size [of "input s"] by (auto simp: ReadRune_def split: if_splits)

text \<open>\<open>peek\<close>: is the next rune one of the given runes?\<close>

definition peek :: "ss \<Rightarrow> int list \<Rightarrow> bool" where
  "peek s ok = (case ReadRune s of None \<Rightarrow> False | Some (r, _) \<Rightarrow> r \<in> set ok)"

text \<open>
  \<open>SkipSpace\<close>, for a scan in which a newline is no space (\<open>nlIsSpace\<close> is false in
  \<open>Sscanf\<close>): a newline is an error.
\<close>

function SkipSpace :: "ss \<Rightarrow> scan_error + ss" where
  "SkipSpace s =
     (case ReadRune s of
        None \<Rightarrow> Inr s
      | Some (r, s') \<Rightarrow>
          if r = 0x0D \<and> peek s' [0x0A] then SkipSpace s'
          else if r = 0x0A then Inl ErrUnexpectedNewline
          else if \<not> isSpace r then Inr s
          else SkipSpace s')"
  by pat_completeness auto
termination
  by (relation "measure (\<lambda>s. length (input s))") (auto dest: ReadRune_shorter)

declare SkipSpace.simps [simp del]

text \<open>
  \<open>accept\<close>: read one rune of the set \<open>ok\<close> into the token, or leave the state as it is.
\<close>

definition accept :: "int list \<Rightarrow> string \<times> ss \<Rightarrow> (string \<times> ss) option" where
  "accept ok bs =
     (case ReadRune (snd bs) of
        None \<Rightarrow> None
      | Some (r, s') \<Rightarrow> if r \<in> set ok then Some (fst bs @ [char_of r], s') else None)"

text \<open>The loop \<open>for s.accept(digits) {}\<close>.\<close>

function accept_all :: "int list \<Rightarrow> string \<times> ss \<Rightarrow> string \<times> ss" where
  "accept_all ok bs = (case accept ok bs of None \<Rightarrow> bs | Some bs' \<Rightarrow> accept_all ok bs')"
  by pat_completeness auto
termination
  by (relation "measure (\<lambda>(ok, bs). length (input (snd bs)))")
     (auto simp: accept_def dest: ReadRune_shorter split: option.splits if_splits)

declare accept_all.simps [simp del]

definition sign_runes :: "int list" where
  "sign_runes = map of_char ''+-''"

definition digit_runes :: "int list" where
  "digit_runes = map of_char ''0123456789''"

text \<open>
  \<open>scanNumber\<close> with \<open>haveDigits\<close> false, and \<open>scanInt\<close> for the verb \<open>d\<close> and 64 bits: the
  token is the optional sign and the digits read, and \<open>strconv.ParseInt\<close> gives its value.
\<close>

definition scanNumber :: "string \<times> ss \<Rightarrow> scan_error + (string \<times> ss)" where
  "scanNumber bs =
     (if ReadRune (snd bs) = None then Inl ErrEOF
      else case accept digit_runes bs of
             None \<Rightarrow> Inl ErrExpectedInteger
           | Some bs' \<Rightarrow> Inr (accept_all digit_runes bs'))"

definition scanInt :: "ss \<Rightarrow> scan_error + (int \<times> ss)" where
  "scanInt s =
     (case SkipSpace s of
        Inl e \<Rightarrow> Inl e
      | Inr s1 \<Rightarrow>
          if ReadRune s1 = None then Inl ErrEOF
          else let bs = (case accept sign_runes ([], s1) of None \<Rightarrow> ([], s1) | Some bs' \<Rightarrow> bs')
               in case scanNumber bs of
                    Inl e \<Rightarrow> Inl e
                  | Inr (tok, s2) \<Rightarrow>
                      (case ParseInt tok of
                         Inl e \<Rightarrow> Inl (ErrParse e)
                       | Inr i \<Rightarrow> Inr (i, s2)))"

text \<open>
  One verb \<open>%d\<close> or \<open>%<maxWid>d\<close> of \<open>doScanf\<close>: spaces are skipped, the limit of the
  operand is set, the operand is scanned, and the limit is reset.
\<close>

definition scan_verb :: "int \<Rightarrow> ss \<Rightarrow> scan_error + (int \<times> ss)" where
  "scan_verb maxWid s =
     (case SkipSpace s of
        Inl e \<Rightarrow> Inl e
      | Inr s1 \<Rightarrow>
          (case scanInt (s1\<lparr>argLimit := min hugeWid (count s1 + maxWid)\<rparr>) of
             Inl e \<Rightarrow> Inl e
           | Inr (i, s2) \<Rightarrow> Inr (i, s2\<lparr>argLimit := hugeWid\<rparr>)))"

text \<open>One literal character of the format, in \<open>advance\<close>.\<close>

definition scan_literal :: "char \<Rightarrow> ss \<Rightarrow> scan_error + ss" where
  "scan_literal c s =
     (case ReadRune s of
        None \<Rightarrow> Inl ErrUnexpectedEOF
      | Some (r, s') \<Rightarrow> if r = of_char c then Inr s' else Inl ErrInputMismatch)"

record scanned =
  n_scanned :: nat
  scan_err :: "scan_error option"
  val_h :: int
  val_m :: int
  val_sec :: int
  val_ms :: int

text \<open>
  \<open>fmt.Sscanf(s, "%d:%2d:%2d.%3d", &h, &m, &sec, &ms)\<close>: the number of operands stored,
  the error, and the four variables, which start at 0.
\<close>

definition Sscanf_npt :: "string \<Rightarrow> scanned" where
  "Sscanf_npt str =
     (let r0 = \<lparr>n_scanned = 0, scan_err = None, val_h = 0, val_m = 0, val_sec = 0, val_ms = 0\<rparr>;
          s0 = \<lparr>input = str, count = 0, argLimit = hugeWid\<rparr>
      in case scan_verb hugeWid s0 of
           Inl e \<Rightarrow> r0\<lparr>scan_err := Some e\<rparr>
         | Inr (h, s1) \<Rightarrow>
       let r1 = r0\<lparr>n_scanned := 1, val_h := h\<rparr>
       in case scan_literal (CHR '':'') s1 of
           Inl e \<Rightarrow> r1\<lparr>scan_err := Some e\<rparr>
         | Inr s2 \<Rightarrow>
          case scan_verb 2 s2 of
           Inl e \<Rightarrow> r1\<lparr>scan_err := Some e\<rparr>
         | Inr (m, s3) \<Rightarrow>
       let r2 = r1\<lparr>n_scanned := 2, val_m := m\<rparr>
       in case scan_literal (CHR '':'') s3 of
           Inl e \<Rightarrow> r2\<lparr>scan_err := Some e\<rparr>
         | Inr s4 \<Rightarrow>
          case scan_verb 2 s4 of
           Inl e \<Rightarrow> r2\<lparr>scan_err := Some e\<rparr>
         | Inr (sec, s5) \<Rightarrow>
       let r3 = r2\<lparr>n_scanned := 3, val_sec := sec\<rparr>
       in case scan_literal (CHR ''.'') s5 of
           Inl e \<Rightarrow> r3\<lparr>scan_err := Some e\<rparr>
         | Inr s6 \<Rightarrow>
          case scan_verb 3 s6 of
           Inl e \<Rightarrow> r3\<lparr>scan_err := Some e\<rparr>
         | Inr (ms, s7) \<Rightarrow> r3\<lparr>n_scanned := 4, val_ms := ms\<rparr>)"

subsection \<open>Notions used to state what the scanner does on digit strings\<close>

text \<open>
  A string of decimal digits, its value read from the left with a starting value, and the
  text that ends a number of the play time format: the end of the input, a colon or a dot.
\<close>

definition all_digits :: "string \<Rightarrow> bool" where
  "all_digits ds = (\<forall>c\<in>set ds. is_digit c)"

definition dval :: "int \<Rightarrow> string \<Rightarrow> int" where
  "dval acc ds = foldl (\<lambda>a c. a * 10 + digit_val c) acc ds"

definition stops :: "string \<Rightarrow> bool" where
  "stops rest = (rest = [] \<or> hd rest = CHR '':'' \<or> hd rest = CHR ''.'')"

section \<open>Play time text (dlna.go)\<close>

definition Millisecond :: int where "Millisecond = 1000000"
definition Second :: int where "Second = 1000 * Millisecond"
definition Minute :: int where "Minute = 60 * Second"
definition Hour :: int where "Hour = 60 * Minute"

datatype npt_error = ScanError scan_error | InvalidNPTTime string

definition ParseNPTTime :: "string \<Rightarrow> int \<times> npt_error option" where
  "ParseNPTTime s =
     (let r = Sscanf_npt s
      in case scan_err r of
           Some e \<Rightarrow> (- 1, Some (ScanError e))
         | None \<Rightarrow>
             if n_scanned r < 3 then (- 1, Some (InvalidNPTTime s))
             else let ret = wrap64 (val_h r * Hour);
                      ret = wrap64 (ret + wrap64 (val_m r * Minute));
                      ret = wrap64 (ret + wrap64 (val_sec r * Second));
                      ret = wrap64 (ret + wrap64 (val_ms r * Millisecond))
                  in (ret, None))"

text \<open>
  \<open>%0<w>d\<close> of \<open>fmt.Sprintf\<close>: the digits are padded with zeros to the width, and a minus
  sign takes one place of the width.
\<close>

definition zero_pad :: "nat \<Rightarrow> string \<Rightarrow> string" where
  "zero_pad w ds = replicate (w - length ds) (CHR ''0'') @ ds"

definition fmt_0d :: "nat \<Rightarrow> int \<Rightarrow> string" where
  "fmt_0d w x = (if x < 0 then CHR ''-'' # zero_pad (w - 1) (decimal (- x)) else zero_pad w (decimal x))"

text \<open>\<open>fmt.Sprintf("%02d:%02d:%02d.%03d", h, m, s, ms)\<close>.\<close>

definition Sprintf_npt :: "int \<Rightarrow> int \<Rightarrow> int \<Rightarrow> int \<Rightarrow> string" where
  "Sprintf_npt h m s ms = fmt_0d 2 h @ '':'' @ fmt_0d 2 m @ '':'' @ fmt_0d 2 s @ ''.'' @ fmt_0d 3 ms"

definition FormatNPTTime :: "int \<Rightarrow> string" where
  "FormatNPTTime npt0 =
     (let npt = go_div npt0 Millisecond;
          ms = go_mod npt 1000;
          npt = go_div npt 1000;
          s = go_mod npt 60;
          npt = go_div npt 60;
          m = go_mod npt 60;
          npt = go_div npt 60;
          h = npt
      in Sprintf_npt h m s ms)"

text \<open>
  \<open>ParseNPTRange\<close> indexes the result of \<open>strings.SplitN\<close>; an index out of range is a
  run-time panic, which no caller sees as an error value.
\<close>

datatype 'a outcome = Panic | Return 'a

definition NPTRange_index :: "string list \<Rightarrow> nat \<Rightarrow> string outcome" where
  "NPTRange_index ss i = (if i < length ss then Return (ss ! i) else Panic)"

definition ParseNPTRange :: "string \<Rightarrow> (NPTRange \<times> npt_error option) outcome" where
  "ParseNPTRange s =
     (let ss = SplitN2 s (CHR ''-''); ret = NPTRange_zero
      in case NPTRange_index ss 0 of
           Panic \<Rightarrow> Panic
         | Return ss0 \<Rightarrow>
             let (ret, err) = (if ss0 \<noteq> [] then
                                 (ret\<lparr>Start := fst (ParseNPTTime ss0)\<rparr>, snd (ParseNPTTime ss0))
                               else (ret, None))
             in if ss0 \<noteq> [] \<and> err \<noteq> None then Return (ret, err)
                else case NPTRange_index ss 1 of
                       Panic \<Rightarrow> Panic
                     | Return ss1 \<Rightarrow>
                         if ss1 \<noteq> [] then
                           Return (ret\<lparr>End := fst (ParseNPTTime ss1)\<rparr>, snd (ParseNPTTime ss1))
                         else Return (ret, err))"

section \<open>Properties of the tokenizer\<close>

lemmas tok_chars = dquote_def squote_def bslash_def space_def tab_def






lemma unclosed_quote_is_error:
  "state (tok_loop tok_init command) = Quotes \<Longrightarrow>
     parseCommandLine command = ([], Some (UnclosedQuote command))"
  by (simp add: parseCommandLine_def tok_finish_def)

text \<open>
  C5. The claim: every input with a quoted field that is opened and never closed fails with
  a syntax error and an empty argument vector, in particular the input made of a double
  quote followed by \<open>abc\<close>. On that input the code returns without error: the loop starts
  with \<open>escapeNext\<close> set, so the quote at position 0 is appended to the field as an
  ordinary byte and no quoted field is ever opened; the result is the single argument
  holding the whole input.
\<close>

theorem parseCommandLine_leading_quote:
  "parseCommandLine (dquote # ''abc'') = ([dquote # ''abc''], None)"
  by (simp add: parseCommandLine_def tok_finish_def tok_init_def tok_step_def
      string_of_byte_def tok_chars)









section \<open>Properties of the planner\<close>

lemma gargs_step: "\<exists>r. gargs (stream_step toInt g x) = gargs g @ r"
  by (simp add: stream_step_def Let_def split: prod.split)

lemma gargs_foldl:
  "\<exists>rest. gargs (foldl (stream_step toInt) g xs) = gargs g @ rest"
proof (induction xs arbitrary: g)
  case Nil show ?case by simp
next
  case (Cons x xs)
  obtain r1 where r1: "gargs (stream_step toInt g x) = gargs g @ r1"
    using gargs_step by blast
  from Cons [of "stream_step toInt g x"] r1 show ?case by auto
qed

lemma video_index_foldl:
  "outputVideoIndex (foldl (stream_step toInt) g xs) = outputVideoIndex g + count_type ''video'' xs"
  by (induction xs arbitrary: g)
     (auto simp: stream_step_def Let_def count_type_def split: prod.splits)

lemma audio_index_foldl:
  "outputAudioIndex (foldl (stream_step toInt) g xs) = outputAudioIndex g + count_type ''audio'' xs"
  by (induction xs arbitrary: g)
     (auto simp: stream_step_def Let_def count_type_def split: prod.splits)

lemma generateStreamArgs_split:
  "\<exists>rest. generateStreamArgs toInt (pre @ s # post) =
     gargs (stream_step toInt (foldl (stream_step toInt) gen_init pre) s) @ rest"
  using gargs_foldl [of toInt "stream_step toInt (foldl (stream_step toInt) gen_init pre) s" post]
  by (simp add: generateStreamArgs_def)

text \<open>
  C8. Whatever streams come before and after it, a video stream with codec name \<open>mjpeg\<close>
  contributes, right after the arguments of the streams before it, a mapping of its input
  index whose codec argument is \<open>copy\<close>; an audio stream with codec name \<open>truehd\<close>
  contributes a mapping with codec argument \<open>ac3\<close> and bitrate argument \<open>640k\<close>. The
  output slot is the number of earlier streams of the same type.
\<close>

theorem planner_mjpeg_truehd:
  "(s ''codec_type'' = Some (JString ''video'') \<and> s ''codec_name'' = Some (JString ''mjpeg'') \<longrightarrow>
      (\<exists>rest. generateStreamArgs toInt (pre @ s # post) =
         generateStreamArgs toInt pre @
         [''-map'', ''0:'' @ Itoa (toInt (s ''index'')),
          ''-c:v:'' @ Itoa (count_type ''video'' pre), ''copy''] @ rest)) \<and>
   (s ''codec_type'' = Some (JString ''audio'') \<and> s ''codec_name'' = Some (JString ''truehd'') \<longrightarrow>
      (\<exists>rest. generateStreamArgs toInt (pre @ s # post) =
         generateStreamArgs toInt pre @
         [''-map'', ''0:'' @ Itoa (toInt (s ''index'')),
          ''-c:a:'' @ Itoa (count_type ''audio'' pre), ''ac3'',
          ''-b:a:'' @ Itoa (count_type ''audio'' pre), ''640k'',
          ''-ac:a:'' @ Itoa (count_type ''audio'' pre), ''6'',
          ''-ar:a:'' @ Itoa (count_type ''audio'' pre), ''48000'',
          ''-sample_fmt:a:3'' @ Itoa (count_type ''audio'' pre), ''fltp'',
          ''-filter:a:'' @ Itoa (count_type ''audio'' pre),
          ''aresample=ocl=stereo:async=10000,channelmap=channel_layout=5.1''] @ rest))"
proof (intro conjI impI)
  assume a: "s ''codec_type'' = Some (JString ''video'') \<and> s ''codec_name'' = Some (JString ''mjpeg'')"
  obtain rest where r: "generateStreamArgs toInt (pre @ s # post) =
     gargs (stream_step toInt (foldl (stream_step toInt) gen_init pre) s) @ rest"
    using generateStreamArgs_split by blast
  have "gargs (stream_step toInt (foldl (stream_step toInt) gen_init pre) s) =
     generateStreamArgs toInt pre @
         [''-map'', ''0:'' @ Itoa (toInt (s ''index'')),
          ''-c:v:'' @ Itoa (count_type ''video'' pre), ''copy'']"
    using a by (simp add: stream_step_def generateStreamArgs_def getStreamAlias_def Let_def
        video_args_def video_index_foldl gen_init_def)
  with r show "\<exists>rest. generateStreamArgs toInt (pre @ s # post) =
         generateStreamArgs toInt pre @
         [''-map'', ''0:'' @ Itoa (toInt (s ''index'')),
          ''-c:v:'' @ Itoa (count_type ''video'' pre), ''copy''] @ rest"
    by simp
next
  assume a: "s ''codec_type'' = Some (JString ''audio'') \<and> s ''codec_name'' = Some (JString ''truehd'')"
  obtain rest where r: "generateStreamArgs toInt (pre @ s # post) =
     gargs (stream_step toInt (foldl (stream_step toInt) gen_init pre) s) @ rest"
    using generateStreamArgs_split by blast
  have "gargs (stream_step toInt (foldl (stream_step toInt) gen_init pre) s) =
     generateStreamArgs toInt pre @
         [''-map'', ''0:'' @ Itoa (toInt (s ''index'')),
          ''-c:a:'' @ Itoa (count_type ''audio'' pre), ''ac3'',
          ''-b:a:'' @ Itoa (count_type ''audio'' pre), ''640k'',
          ''-ac:a:'' @ Itoa (count_type ''audio'' pre), ''6'',
          ''-ar:a:'' @ Itoa (count_type ''audio'' pre), ''48000'',
          ''-sample_fmt:a:3'' @ Itoa (count_type ''audio'' pre), ''fltp'',
          ''-filter:a:'' @ Itoa (count_type ''audio'' pre),
          ''aresample=ocl=stereo:async=10000,channelmap=channel_layout=5.1'']"
    using a by (simp add: stream_step_def generateStreamArgs_def getStreamAlias_def Let_def
        audio_args_def audio_index_foldl gen_init_def)
  with r show "\<exists>rest. generateStreamArgs toInt (pre @ s # post) =
         generateStreamArgs toInt pre @
         [''-map'', ''0:'' @ Itoa (toInt (s ''index'')),
          ''-c:a:'' @ Itoa (count_type ''audio'' pre), ''ac3'',
          ''-b:a:'' @ Itoa (count_type ''audio'' pre), ''640k'',
          ''-ac:a:'' @ Itoa (count_type ''audio'' pre), ''6'',
          ''-ar:a:'' @ Itoa (count_type ''audio'' pre), ''48000'',
          ''-sample_fmt:a:3'' @ Itoa (count_type ''audio'' pre), ''fltp'',
          ''-filter:a:'' @ Itoa (count_type ''audio'' pre),
          ''aresample=ocl=stereo:async=10000,channelmap=channel_layout=5.1''] @ rest"
    by simp
qed

theorem planner_mjpeg_truehd_witness:
  "(ex_video ''codec_type'' = Some (JString ''video'') \<and> ex_video ''codec_name'' = Some (JString ''mjpeg'')) \<and>
   (\<exists>rest. generateStreamArgs ex_toInt ([] @ ex_video # [ex_audio]) =
         generateStreamArgs ex_toInt [] @
         [''-map'', ''0:'' @ Itoa (ex_toInt (ex_video ''index'')),
          ''-c:v:'' @ Itoa (count_type ''video'' []), ''copy''] @ rest) \<and>
   (ex_audio ''codec_type'' = Some (JString ''audio'') \<and> ex_audio ''codec_name'' = Some (JString ''truehd'')) \<and>
   (\<exists>rest. generateStreamArgs ex_toInt ([ex_video] @ ex_audio # []) =
         generateStreamArgs ex_toInt [ex_video] @
         [''-map'', ''0:'' @ Itoa (ex_toInt (ex_audio ''index'')),
          ''-c:a:'' @ Itoa (count_type ''audio'' [ex_video]), ''ac3'',
          ''-b:a:'' @ Itoa (count_type ''audio'' [ex_video]), ''640k'',
          ''-ac:a:'' @ Itoa (count_type ''audio'' [ex_video]), ''6'',
          ''-ar:a:'' @ Itoa (count_type ''audio'' [ex_video]), ''48000'',
          ''-sample_fmt:a:3'' @ Itoa (count_type ''audio'' [ex_video]), ''fltp'',
          ''-filter:a:'' @ Itoa (count_type ''audio'' [ex_video]),
          ''aresample=ocl=stereo:async=10000,channelmap=channel_layout=5.1''] @ rest)"
proof -
  have v: "ex_video ''codec_type'' = Some (JString ''video'') \<and> ex_video ''codec_name'' = Some (JString ''mjpeg'')"
    by (simp add: ex_video_def)
  have a: "ex_audio ''codec_type'' = Some (JString ''audio'') \<and> ex_audio ''codec_name'' = Some (JString ''truehd'')"
    by (simp add: ex_audio_def)
  from planner_mjpeg_truehd [of ex_video ex_toInt "[]" "[ex_audio]"]
       planner_mjpeg_truehd [of ex_audio ex_toInt "[ex_video]" "[]"] v a
  show ?thesis by blast
qed

section \<open>Properties of the range converter\<close>

lemma wrap64_id: "is_int64 x \<Longrightarrow> wrap64 x = x"
  by (simp add: wrap64_def is_int64_def)

lemma ParseUint_loop_digits: "ParseUint_loop n s = Inr v \<Longrightarrow> \<forall>c\<in>set s. is_digit c"
  by (induction s arbitrary: n) (auto split: if_splits)

lemma ParseInt_chars:
  assumes "ParseInt s = Inr v" and "c \<in> set s"
  shows "is_digit c \<or> c = CHR ''+'' \<or> c = CHR ''-''"
proof -
  from assms(1) have ne: "s \<noteq> []" by (auto simp: ParseInt_def)
  then obtain x xs where s: "s = x # xs" by (cases s) auto
  let ?s' = "if x = CHR ''+'' \<or> x = CHR ''-'' then xs else s"
  from assms(1) s obtain un where "ParseUint ?s' = Inr un"
    by (auto simp: ParseInt_def Let_def split: sum.splits num_error.splits if_splits)
  then have "ParseUint_loop 0 ?s' = Inr un"
    by (auto simp: ParseUint_def split: if_splits)
  then have "\<forall>c\<in>set ?s'. is_digit c" by (rule ParseUint_loop_digits)
  with assms(2) s show ?thesis by (auto split: if_splits)
qed

lemma ParseInt_no_comma: "ParseInt s = Inr v \<Longrightarrow> CHR '','' \<notin> set s"
  using ParseInt_chars [of s v "CHR '',''"] by (auto simp: is_digit_def)

lemma SplitN2_cases:
  "(sep \<notin> set s \<and> SplitN2 s sep = [s]) \<or>
   (\<exists>a b. s = a @ sep # b \<and> sep \<notin> set a \<and> SplitN2 s sep = [a, b])"
proof (cases "sep \<in> set s")
  case False then show ?thesis by (simp add: SplitN2_def)
next
  case True
  let ?a = "takeWhile (\<lambda>c. c \<noteq> sep) s" and ?d = "dropWhile (\<lambda>c. c \<noteq> sep) s"
  from True have "?d \<noteq> []" by (auto simp: dropWhile_eq_Nil_conv)
  moreover have "hd ?d = sep" using hd_dropWhile [OF \<open>?d \<noteq> []\<close>] by simp
  ultimately have d: "?d = sep # tl ?d" by (cases ?d) auto
  have "s = ?a @ ?d" by simp
  with d have "s = ?a @ sep # tl ?d" by simp
  moreover have "sep \<notin> set ?a" by (auto dest: set_takeWhileD)
  ultimately show ?thesis using True by (auto simp: SplitN2_def)
qed

text \<open>
  C1. For a positive total size and any duration, the headers \<open>bytes=0-\<close> and
  \<open>bytes=0-<totalSize-1>\<close> give, without error, the range from time 0 to the whole
  duration and from byte 0 to byte \<open>totalSize - 1\<close>. The result is the same whatever
  function computes positions, so no position arithmetic takes part in it.
\<close>

theorem whole_resource_fast_path:
  assumes "0 < totalSize" and "is_int64 totalSize"
    and "h = ''bytes=0-'' \<or> h = ''bytes=0-'' @ FormatInt (totalSize - 1)"
  shows "ParseHTTPRange_with calc h totalSize duration =
           (\<lparr>Start = 0, End = duration, StartByte = 0, EndByte = totalSize - 1\<rparr>, None) \<and>
         ParseHTTPRangeToNPTRange h totalSize duration =
           (\<lparr>Start = 0, End = duration, StartByte = 0, EndByte = totalSize - 1\<rparr>, None)"
proof -
  from assms(1,2) have "wrap64 (totalSize - 1) = totalSize - 1"
    by (intro wrap64_id) (simp add: is_int64_def)
  with assms(3) show ?thesis
    by (auto simp: ParseHTTPRangeToNPTRange_def ParseHTTPRange_with_def whole_resource_def
        prefix_bytes_def)
qed

lemma range_result_cases:
  assumes nf: "\<not> whole_resource h totalSize"
  shows "(snd (ParseHTTPRange_with calc h totalSize duration) \<noteq> None \<and>
          fst (ParseHTTPRange_with calc h totalSize duration) = NPTRange_zero) \<or>
         (\<exists>a b s e. h = prefix_bytes @ a @ CHR ''-'' # b \<and> CHR ''-'' \<notin> set a \<and>
            ParseInt a = Inr s \<and> (if b = [] then e = wrap64 (totalSize - 1) else ParseInt b = Inr e) \<and>
            0 \<le> s \<and> s \<le> e \<and> e < totalSize \<and>
            ParseHTTPRange_with calc h totalSize duration =
              (\<lparr>Start = calc s totalSize duration,
                End = (if calc (wrap64 (e + 1)) totalSize duration > duration then duration
                       else calc (wrap64 (e + 1)) totalSize duration),
                StartByte = s, EndByte = e\<rparr>, None))"
proof (cases "prefix prefix_bytes h")
  case False
  with nf show ?thesis by (simp add: ParseHTTPRange_with_def)
next
  case True
  then obtain spec where h: "h = prefix_bytes @ spec" by (auto simp: prefix_def)
  from SplitN2_cases [of "CHR ''-''" spec] show ?thesis
  proof (elim disjE exE conjE)
    assume "SplitN2 spec CHR ''-'' = [spec]"
    with nf h show ?thesis by (simp add: ParseHTTPRange_with_def)
  next
    fix a b assume ab: "spec = a @ CHR ''-'' # b" "CHR ''-'' \<notin> set a" "SplitN2 spec CHR ''-'' = [a, b]"
    show ?thesis
    proof (cases "ParseInt a")
      case (Inl e) with nf h ab show ?thesis by (simp add: ParseHTTPRange_with_def)
    next
      case (Inr s)
      define eb where "eb = (if b \<noteq> [] then ParseInt b else Inr (wrap64 (totalSize - 1)))"
      have unf: "ParseHTTPRange_with calc h totalSize duration =
         (case eb of
            Inl _ \<Rightarrow> (NPTRange_zero, Some InvalidEndByte)
          | Inr endByte \<Rightarrow>
              if s < 0 \<or> endByte \<ge> totalSize \<or> s > endByte
              then (NPTRange_zero, Some RangeOutOfBounds)
              else (\<lparr>Start = calc s totalSize duration,
                     End = (if calc (wrap64 (endByte + 1)) totalSize duration > duration then duration
                            else calc (wrap64 (endByte + 1)) totalSize duration),
                     StartByte = s, EndByte = endByte\<rparr>, None))"
        using nf h ab Inr unfolding eb_def
        by (cases "b = []") (simp_all add: ParseHTTPRange_with_def Let_def split: sum.split)
      show ?thesis
      proof (cases eb)
        case (Inl x) with unf show ?thesis by simp
      next
        case e: (Inr e)
        show ?thesis
        proof (cases "s < 0 \<or> e \<ge> totalSize \<or> s > e")
          case True with unf e show ?thesis by simp
        next
          case False
          have "ParseHTTPRange_with calc h totalSize duration =
              (\<lparr>Start = calc s totalSize duration,
                End = (if calc (wrap64 (e + 1)) totalSize duration > duration then duration
                       else calc (wrap64 (e + 1)) totalSize duration),
                StartByte = s, EndByte = e\<rparr>, None)"
            using unf e False by simp
          moreover have "if b = [] then e = wrap64 (totalSize - 1) else ParseInt b = Inr e"
            using e unfolding eb_def by (auto split: if_splits)
          ultimately show ?thesis using h ab Inr False by (intro disjI2) fastforce
        qed
      qed
    qed
  qed
qed

text \<open>
  C4. For a header that is not the whole-resource form: a result without error comes only
  from a header \<open>bytes=start-end\<close> whose start parses as an integer and whose end is
  empty or parses as an integer, with \<open>0 \<le> startByte \<le> endByte < totalSize\<close>; every
  error comes with the zero range; and every header that contains a comma, as each
  multi-range specifier does, is an error.
\<close>

theorem range_validation:
  assumes "is_int64 totalSize" and "\<not> whole_resource h totalSize"
  shows "(snd (ParseHTTPRangeToNPTRange h totalSize duration) = None \<longrightarrow>
           (\<exists>a b. h = ''bytes='' @ a @ ''-'' @ b \<and> CHR ''-'' \<notin> set a \<and>
              ParseInt a = Inr (StartByte (fst (ParseHTTPRangeToNPTRange h totalSize duration))) \<and>
              (if b = [] then EndByte (fst (ParseHTTPRangeToNPTRange h totalSize duration)) = totalSize - 1
               else ParseInt b = Inr (EndByte (fst (ParseHTTPRangeToNPTRange h totalSize duration)))) \<and>
              0 \<le> StartByte (fst (ParseHTTPRangeToNPTRange h totalSize duration)) \<and>
              StartByte (fst (ParseHTTPRangeToNPTRange h totalSize duration))
                \<le> EndByte (fst (ParseHTTPRangeToNPTRange h totalSize duration)) \<and>
              EndByte (fst (ParseHTTPRangeToNPTRange h totalSize duration)) < totalSize)) \<and>
         (snd (ParseHTTPRangeToNPTRange h totalSize duration) \<noteq> None \<longrightarrow>
            fst (ParseHTTPRangeToNPTRange h totalSize duration) = NPTRange_zero) \<and>
         (CHR '','' \<in> set h \<longrightarrow> snd (ParseHTTPRangeToNPTRange h totalSize duration) \<noteq> None)"
proof -
  let ?r = "ParseHTTPRangeToNPTRange h totalSize duration"
  have wmin: "e = totalSize - 1" if "e = wrap64 (totalSize - 1)" "e < totalSize" for e
  proof (cases "- (2 ^ 63) < totalSize")
    case True
    with assms(1) have "wrap64 (totalSize - 1) = totalSize - 1"
      by (intro wrap64_id) (simp add: is_int64_def)
    with that show ?thesis by simp
  next
    case False
    with assms(1) have "totalSize = - (2 ^ 63)" by (simp add: is_int64_def)
    with that show ?thesis by (simp add: wrap64_def)
  qed
  from range_result_cases [OF assms(2), of calculateNPTPosition duration]
  show ?thesis
  proof (elim disjE exE conjE)
    assume "snd (ParseHTTPRange_with calculateNPTPosition h totalSize duration) \<noteq> None"
      and "fst (ParseHTTPRange_with calculateNPTPosition h totalSize duration) = NPTRange_zero"
    then have "snd ?r \<noteq> None" and "fst ?r = NPTRange_zero"
      unfolding ParseHTTPRangeToNPTRange_def by blast+
    then show ?thesis by blast
  next
    fix a b s e
    assume h: "h = prefix_bytes @ a @ CHR ''-'' # b" and a: "CHR ''-'' \<notin> set a"
      and s: "ParseInt a = Inr s"
      and e: "if b = [] then e = wrap64 (totalSize - 1) else ParseInt b = Inr e"
      and b: "0 \<le> s" "s \<le> e" "e < totalSize"
      and r: "ParseHTTPRange_with calculateNPTPosition h totalSize duration =
                (\<lparr>Start = calculateNPTPosition s totalSize duration,
                  End = (if calculateNPTPosition (wrap64 (e + 1)) totalSize duration > duration
                         then duration
                         else calculateNPTPosition (wrap64 (e + 1)) totalSize duration),
                  StartByte = s, EndByte = e\<rparr>, None)"
    have e': "if b = [] then e = totalSize - 1 else ParseInt b = Inr e"
    proof (cases "b = []")
      case True
      with e have "e = wrap64 (totalSize - 1)" by simp
      from wmin [OF this b(3)] True show ?thesis by simp
    next
      case False
      with e show ?thesis by simp
    qed
    have "CHR '','' \<notin> set a" using s by (rule ParseInt_no_comma)
    moreover have "CHR '','' \<notin> set b"
    proof (cases "b = []")
      case True then show ?thesis by simp
    next
      case False
      with e' have "ParseInt b = Inr e" by simp
      then show ?thesis by (rule ParseInt_no_comma)
    qed
    ultimately have nc: "CHR '','' \<notin> set h"
      unfolding h by (simp add: prefix_bytes_def)
    have sn: "snd ?r = None" and sb: "StartByte (fst ?r) = s" and eb: "EndByte (fst ?r) = e"
      unfolding ParseHTTPRangeToNPTRange_def r by simp_all
    have h': "h = ''bytes='' @ a @ ''-'' @ b"
      unfolding h by (simp add: prefix_bytes_def)
    have "\<exists>a b. h = ''bytes='' @ a @ ''-'' @ b \<and> CHR ''-'' \<notin> set a \<and>
              ParseInt a = Inr (StartByte (fst ?r)) \<and>
              (if b = [] then EndByte (fst ?r) = totalSize - 1
               else ParseInt b = Inr (EndByte (fst ?r))) \<and>
              0 \<le> StartByte (fst ?r) \<and> StartByte (fst ?r) \<le> EndByte (fst ?r) \<and>
              EndByte (fst ?r) < totalSize"
      unfolding sb eb using h' a s e' b by blast
    with sn nc show ?thesis by blast
  qed
qed

theorem whole_resource_fast_path_witness:
  "(0::int) < 1000 \<and> is_int64 1000 \<and>
   ParseHTTPRange_with (\<lambda>b t d. 0) ''bytes=0-999'' 1000 5000 =
     (\<lparr>Start = 0, End = 5000, StartByte = 0, EndByte = 999\<rparr>, None) \<and>
   ParseHTTPRangeToNPTRange ''bytes=0-999'' 1000 5000 =
     (\<lparr>Start = 0, End = 5000, StartByte = 0, EndByte = 999\<rparr>, None)"
proof -
  have f: "''bytes=0-999'' = ''bytes=0-'' @ FormatInt (1000 - 1)"
    by code_simp
  have i: "is_int64 1000"
    by (simp add: is_int64_def)
  from whole_resource_fast_path [of 1000 "''bytes=0-999''" "\<lambda>b t d. 0" 5000] f i
  show ?thesis by simp
qed

theorem range_validation_witness:
  "is_int64 1000 \<and> \<not> whole_resource ''bytes=10-'' 1000 \<and>
   \<not> whole_resource ''bytes=0-5,10-20'' 1000 \<and>
   snd (ParseHTTPRangeToNPTRange ''bytes=10-'' 1000 5000) = None \<and>
   (\<exists>a b. ''bytes=10-'' = ''bytes='' @ a @ ''-'' @ b \<and> CHR ''-'' \<notin> set a \<and>
      ParseInt a = Inr (StartByte (fst (ParseHTTPRangeToNPTRange ''bytes=10-'' 1000 5000))) \<and>
      (if b = [] then EndByte (fst (ParseHTTPRangeToNPTRange ''bytes=10-'' 1000 5000)) = 1000 - 1
       else ParseInt b = Inr (EndByte (fst (ParseHTTPRangeToNPTRange ''bytes=10-'' 1000 5000)))) \<and>
      0 \<le> StartByte (fst (ParseHTTPRangeToNPTRange ''bytes=10-'' 1000 5000)) \<and>
      StartByte (fst (ParseHTTPRangeToNPTRange ''bytes=10-'' 1000 5000))
        \<le> EndByte (fst (ParseHTTPRangeToNPTRange ''bytes=10-'' 1000 5000)) \<and>
      EndByte (fst (ParseHTTPRangeToNPTRange ''bytes=10-'' 1000 5000)) < 1000) \<and>
   CHR '','' \<in> set ''bytes=0-5,10-20'' \<and>
   snd (ParseHTTPRangeToNPTRange ''bytes=0-5,10-20'' 1000 5000) \<noteq> None \<and>
   fst (ParseHTTPRangeToNPTRange ''bytes=0-5,10-20'' 1000 5000) = NPTRange_zero"
proof -
  have ok: "snd (ParseHTTPRangeToNPTRange ''bytes=10-'' 1000 5000) = None"
    by code_simp
  have nw: "\<not> whole_resource ''bytes=10-'' 1000" "\<not> whole_resource ''bytes=0-5,10-20'' 1000"
    by code_simp+
  have i: "is_int64 1000"
    by (simp add: is_int64_def)
  have c: "CHR '','' \<in> set ''bytes=0-5,10-20''"
    by simp
  from range_validation [OF i nw(1), of 5000] range_validation [OF i nw(2), of 5000] ok nw i c
  show ?thesis by blast
qed

section \<open>The scanner on digit fields\<close>

lemma is_digit_ascii: "is_digit c \<Longrightarrow> (of_char c :: int) < 128"
  by (simp add: is_digit_def)

lemma DecodeRune_ascii: "(of_char c :: int) < 128 \<Longrightarrow> DecodeRune (c # cs) = (of_char c, 1)"
  by (simp add: DecodeRune_def)

lemma ReadRune_ascii:
  assumes "input s = c # cs" and "(of_char c :: int) < 128" and "count s < argLimit s"
  shows "ReadRune s = Some (of_char c, s\<lparr>input := cs, count := count s + 1\<rparr>)"
  using assms by (simp add: ReadRune_def DecodeRune_ascii)

lemma ReadRune_limit: "argLimit s \<le> count s \<Longrightarrow> ReadRune s = None"
  by (simp add: ReadRune_def)

lemma ReadRune_empty: "input s = [] \<Longrightarrow> ReadRune s = None"
  by (simp add: ReadRune_def)

lemma digit_not_space: "is_digit c \<Longrightarrow> \<not> isSpace (of_char c) \<and> (of_char c :: int) \<noteq> 0x0A \<and> (of_char c :: int) \<noteq> 0x0D"
  by (auto simp: is_digit_def isSpace_def)

lemma SkipSpace_digit:
  assumes "input s = c # cs" and "is_digit c" and "count s < argLimit s"
  shows "SkipSpace s = Inr s"
  using ReadRune_ascii [OF assms(1) is_digit_ascii [OF assms(2)] assms(3)] digit_not_space [OF assms(2)]
  by (subst SkipSpace.simps) simp

lemma digit_in_runes: "is_digit c \<Longrightarrow> (of_char c :: int) \<in> set digit_runes"
proof -
  assume "is_digit c"
  then have "(of_char c :: int) \<in> {48, 49, 50, 51, 52, 53, 54, 55, 56, 57}"
    unfolding is_digit_def by simp arith
  then show ?thesis by (auto simp: digit_runes_def)
qed

lemma digit_not_sign: "is_digit c \<Longrightarrow> (of_char c :: int) \<notin> set sign_runes"
  by (auto simp: is_digit_def sign_runes_def)

lemma accept_digit:
  assumes "input s = c # cs" and "is_digit c" and "count s < argLimit s"
  shows "accept digit_runes (buf, s) = Some (buf @ [c], s\<lparr>input := cs, count := count s + 1\<rparr>)"
  using ReadRune_ascii [OF assms(1) is_digit_ascii [OF assms(2)] assms(3)] digit_in_runes [OF assms(2)]
  by (simp add: accept_def)

lemma accept_sign_digit:
  assumes "input s = c # cs" and "is_digit c" and "count s < argLimit s"
  shows "accept sign_runes (buf, s) = None"
  using ReadRune_ascii [OF assms(1) is_digit_ascii [OF assms(2)] assms(3)] digit_not_sign [OF assms(2)]
  by (simp add: accept_def)

lemma accept_stop:
  assumes "input s = rest" and "stops rest"
  shows "accept digit_runes (buf, s) = None"
proof (cases "rest = [] \<or> argLimit s \<le> count s")
  case True
  with assms(1) have "ReadRune s = None" by (auto simp: ReadRune_def)
  then show ?thesis by (simp add: accept_def)
next
  case False
  then obtain c cs where r: "rest = c # cs" by (cases rest) auto
  with assms(2) have c: "c = CHR '':'' \<or> c = CHR ''.''" by (simp add: stops_def)
  then have "(of_char c :: int) < 128" by auto
  from ReadRune_ascii [OF _ this, of s cs] assms(1) r False
  have "ReadRune s = Some (of_char c, s\<lparr>input := cs, count := count s + 1\<rparr>)" by simp
  moreover from c have "(of_char c :: int) \<notin> set digit_runes" by (auto simp: digit_runes_def)
  ultimately show ?thesis by (simp add: accept_def)
qed

lemma accept_all_digits:
  assumes "input s = ds @ rest" and "all_digits ds" and "stops rest"
    and "count s + int (length ds) \<le> argLimit s"
  shows "accept_all digit_runes (buf, s) =
           (buf @ ds, s\<lparr>input := rest, count := count s + int (length ds)\<rparr>)"
  using assms
proof (induction ds arbitrary: s buf)
  case Nil
  from accept_stop [OF _ Nil(3), of s buf] Nil(1) show ?case
    by (subst accept_all.simps) simp
next
  case (Cons d ds)
  let ?s' = "s\<lparr>input := ds @ rest, count := count s + 1\<rparr>"
  from Cons.prems have a: "accept digit_runes (buf, s) = Some (buf @ [d], ?s')"
    by (intro accept_digit) (auto simp: all_digits_def)
  have "accept_all digit_runes (buf @ [d], ?s') =
          ((buf @ [d]) @ ds, ?s'\<lparr>input := rest, count := count ?s' + int (length ds)\<rparr>)"
    using Cons.prems by (intro Cons.IH) (auto simp: all_digits_def)
  with a show ?case by (subst accept_all.simps) simp
qed

lemma scanInt_digits:
  assumes "input s = ds @ rest" and "ds \<noteq> []" and "all_digits ds" and "stops rest"
    and "count s + int (length ds) \<le> argLimit s" and "ParseInt ds = Inr v"
  shows "scanInt s = Inr (v, s\<lparr>input := rest, count := count s + int (length ds)\<rparr>)"
proof -
  from assms(2) obtain d ds' where ds: "ds = d # ds'" by (cases ds) auto
  with assms have i: "input s = d # (ds' @ rest)" and d: "is_digit d" and l: "count s < argLimit s"
    by (auto simp: all_digits_def)
  have sk: "SkipSpace s = Inr s" using i d l by (rule SkipSpace_digit)
  have rr: "ReadRune s \<noteq> None"
    using ReadRune_ascii [OF i is_digit_ascii [OF d] l] by simp
  have sg: "accept sign_runes ([], s) = None" using i d l by (rule accept_sign_digit)
  let ?s' = "s\<lparr>input := ds' @ rest, count := count s + 1\<rparr>"
  have a1: "accept digit_runes ([], s) = Some ([d], ?s')"
    using accept_digit [OF i d l, of "[]"] by simp
  have a2: "accept_all digit_runes ([d], ?s') =
              ([d] @ ds', ?s'\<lparr>input := rest, count := count ?s' + int (length ds')\<rparr>)"
    using assms ds by (intro accept_all_digits) (auto simp: all_digits_def)
  have sn: "scanNumber ([], s) = Inr (ds, s\<lparr>input := rest, count := count s + int (length ds)\<rparr>)"
    using rr a1 a2 ds by (simp add: scanNumber_def)
  show ?thesis using sk rr sg sn assms(6) by (simp add: scanInt_def)
qed

lemma scan_verb_digits:
  assumes "input s = ds @ rest" and "ds \<noteq> []" and "all_digits ds" and "stops rest"
    and "int (length ds) \<le> w" and "count s + int (length ds) \<le> hugeWid"
    and "argLimit s = hugeWid" and "ParseInt ds = Inr v"
  shows "scan_verb w s = Inr (v, s\<lparr>input := rest, count := count s + int (length ds)\<rparr>)"
proof -
  from assms(2) obtain d ds' where ds: "ds = d # ds'" by (cases ds) auto
  with assms have i: "input s = d # (ds' @ rest)" and d: "is_digit d" and l: "count s < argLimit s"
    by (auto simp: all_digits_def)
  have sk: "SkipSpace s = Inr s" using i d l by (rule SkipSpace_digit)
  let ?s1 = "s\<lparr>argLimit := min hugeWid (count s + w)\<rparr>"
  have "scanInt ?s1 = Inr (v, ?s1\<lparr>input := rest, count := count ?s1 + int (length ds)\<rparr>)"
    using assms by (intro scanInt_digits) auto
  with sk assms(7) show ?thesis by (simp add: scan_verb_def)
qed

lemma scan_literal_ok:
  assumes "input s = c # cs" and "(of_char c :: int) < 128" and "count s < argLimit s"
  shows "scan_literal c s = Inr (s\<lparr>input := cs, count := count s + 1\<rparr>)"
  using ReadRune_ascii [OF assms] by (simp add: scan_literal_def)

section \<open>Decimal text and its value\<close>

lemma digit_char_is_digit: "0 \<le> d \<Longrightarrow> d < 10 \<Longrightarrow> is_digit (digit_char d)"
  by (simp add: is_digit_def digit_char_def of_char_of)

lemma digit_val_digit_char: "0 \<le> d \<Longrightarrow> d < 10 \<Longrightarrow> digit_val (digit_char d) = d"
  by (simp add: digit_val_def digit_char_def of_char_of)

lemma decimal_nonempty: "decimal n \<noteq> []"
  by (subst decimal.simps) simp

lemma decimal_all_digits: "0 \<le> n \<Longrightarrow> all_digits (decimal n)"
proof (induction n rule: decimal.induct)
  case (1 n)
  show ?case
  proof (cases "n < 10")
    case True
    with 1(2) show ?thesis
      by (subst decimal.simps) (simp add: all_digits_def digit_char_is_digit)
  next
    case False
    with 1 have "all_digits (decimal (n div 10))" by simp
    moreover have "is_digit (digit_char (n mod 10))" by (intro digit_char_is_digit) simp_all
    ultimately show ?thesis using False
      by (subst decimal.simps) (simp add: all_digits_def)
  qed
qed

lemma dval_snoc: "dval acc (ds @ [c]) = dval acc ds * 10 + digit_val c"
  by (simp add: dval_def)

lemma dval_decimal: "0 \<le> n \<Longrightarrow> dval 0 (decimal n) = n"
proof (induction n rule: decimal.induct)
  case (1 n)
  show ?case
  proof (cases "n < 10")
    case True
    with 1(2) show ?thesis
      by (subst decimal.simps) (simp add: dval_def digit_val_digit_char)
  next
    case False
    with 1 have "dval 0 (decimal (n div 10)) = n div 10" by simp
    moreover have "digit_val (digit_char (n mod 10)) = n mod 10"
      by (intro digit_val_digit_char) simp_all
    ultimately show ?thesis using False
      by (subst decimal.simps) (simp add: dval_snoc)
  qed
qed

lemma decimal_length: "n < 10 ^ k \<Longrightarrow> 0 < k \<Longrightarrow> length (decimal n) \<le> k"
proof (induction n arbitrary: k rule: decimal.induct)
  case (1 n)
  show ?case
  proof (cases "n < 10")
    case True
    with 1(3) show ?thesis by (subst decimal.simps) simp
  next
    case False
    from False 1(2,3) obtain j where k: "k = Suc j" and j: "0 < j"
      by (cases k; cases "k - 1") auto
    from 1(2) k have "n div 10 < 10 ^ j" by simp
    from 1(1) [OF False this j] k False show ?thesis
      by (subst decimal.simps) simp
  qed
qed

lemma dval_zero_pad: "dval 0 (zero_pad w ds) = dval 0 ds"
proof -
  have "dval 0 (replicate k (CHR ''0'') @ ds) = dval 0 ds" for k
    by (induction k) (simp_all add: dval_def digit_val_def)
  then show ?thesis by (simp add: zero_pad_def)
qed

lemma all_digits_zero_pad: "all_digits ds \<Longrightarrow> all_digits (zero_pad w ds)"
  by (auto simp: all_digits_def zero_pad_def is_digit_def)

lemma dval_mono: "0 \<le> acc \<Longrightarrow> all_digits ds \<Longrightarrow> acc \<le> dval acc ds"
proof (induction ds arbitrary: acc)
  case Nil then show ?case by (simp add: dval_def)
next
  case (Cons d ds)
  from Cons.prems have d: "0 \<le> digit_val d" by (simp add: all_digits_def is_digit_def digit_val_def)
  with Cons.prems have "acc * 10 + digit_val d \<le> dval (acc * 10 + digit_val d) ds"
    by (intro Cons.IH) (auto simp: all_digits_def)
  with Cons.prems d show ?case by (simp add: dval_def)
qed

lemma ParseUint_loop_dval:
  "all_digits ds \<Longrightarrow> 0 \<le> acc \<Longrightarrow> dval acc ds < 2 ^ 64 \<Longrightarrow> ParseUint_loop acc ds = Inr (dval acc ds)"
proof (induction ds arbitrary: acc)
  case Nil then show ?case by (simp add: dval_def)
next
  case (Cons d ds)
  from Cons.prems have d: "0 \<le> digit_val d" "is_digit d" "all_digits ds"
    by (simp_all add: all_digits_def is_digit_def digit_val_def)
  have step: "dval acc (d # ds) = dval (acc * 10 + digit_val d) ds" by (simp add: dval_def)
  from d Cons.prems have nn: "0 \<le> acc * 10 + digit_val d" by simp
  from dval_mono [OF nn d(3)] Cons.prems(3) step have b: "acc * 10 + digit_val d < 2 ^ 64" by simp
  with d(1) have c: "\<not> acc \<ge> (2 ^ 64 - 1) div 10 + 1" by simp
  from Cons.IH [OF d(3) nn] Cons.prems(3) step
  have "ParseUint_loop (acc * 10 + digit_val d) ds = Inr (dval acc (d # ds))" by simp
  with d(2) b c show ?case by simp
qed

lemma ParseInt_digits:
  assumes "all_digits ds" and "ds \<noteq> []" and "dval 0 ds < 2 ^ 63"
  shows "ParseInt ds = Inr (dval 0 ds)"
proof -
  from assms(3) have "dval 0 ds < 2 ^ 64" by simp
  with assms(1) have u: "ParseUint_loop 0 ds = Inr (dval 0 ds)" by (intro ParseUint_loop_dval) simp_all
  from assms(1,2) have "is_digit (hd ds)" by (cases ds) (auto simp: all_digits_def)
  then have "hd ds \<noteq> CHR ''+''" "hd ds \<noteq> CHR ''-''" by (auto simp: is_digit_def)
  with u assms show ?thesis by (simp add: ParseInt_def ParseUint_def)
qed

lemma zero_pad_nonempty: "ds \<noteq> [] \<Longrightarrow> zero_pad w ds \<noteq> []"
  by (simp add: zero_pad_def)

lemma field_props:
  assumes "0 \<le> n" and "n < 2 ^ 63"
  shows "fmt_0d w n \<noteq> []" and "all_digits (fmt_0d w n)" and "ParseInt (fmt_0d w n) = Inr n"
proof -
  from assms(1) have f: "fmt_0d w n = zero_pad w (decimal n)" by (simp add: fmt_0d_def)
  show ne: "fmt_0d w n \<noteq> []" unfolding f by (intro zero_pad_nonempty decimal_nonempty)
  show ad: "all_digits (fmt_0d w n)"
    unfolding f using assms(1) by (intro all_digits_zero_pad decimal_all_digits)
  have "dval 0 (fmt_0d w n) = n" unfolding f using assms(1) by (simp add: dval_zero_pad dval_decimal)
  with ParseInt_digits [OF ad ne] assms(2) show "ParseInt (fmt_0d w n) = Inr n" by simp
qed

lemma field_length:
  assumes "0 \<le> n" and "n < 10 ^ k" and "0 < k" and "k \<le> w"
  shows "length (fmt_0d w n) = w"
proof -
  from decimal_length [OF assms(2,3)] assms(4) have "length (decimal n) \<le> w" by simp
  with assms(1) show ?thesis by (simp add: fmt_0d_def zero_pad_def)
qed

lemma field_length_le:
  assumes "0 \<le> n" and "n < 10 ^ k" and "0 < k"
  shows "length (fmt_0d w n) \<le> max w k"
  using decimal_length [OF assms(2,3)] assms(1) by (simp add: fmt_0d_def zero_pad_def)

section \<open>Scanning a canonical play time\<close>

lemma stops_colon: "stops (CHR '':'' # r)" and stops_dot: "stops (CHR ''.'' # r)" and stops_nil: "stops []"
  by (simp_all add: stops_def)

lemma hugeWid_val: "hugeWid = 1073741824"
  by (simp add: hugeWid_def)

lemma Sscanf_npt_canonical:
  assumes h: "0 \<le> h" "h < 10 ^ 19" "h < 2 ^ 63"
    and m: "0 \<le> m" "m < 60" and s: "0 \<le> sec" "sec < 60" and ms: "0 \<le> ms" "ms < 1000"
  shows "Sscanf_npt (Sprintf_npt h m sec ms) =
           \<lparr>n_scanned = 4, scan_err = None, val_h = h, val_m = m, val_sec = sec, val_ms = ms\<rparr>"
proof -
  let ?H = "fmt_0d 2 h" and ?M = "fmt_0d 2 m" and ?S = "fmt_0d 2 sec" and ?F = "fmt_0d 3 ms"
  let ?r1 = "CHR '':'' # ?M @ CHR '':'' # ?S @ CHR ''.'' # ?F"
  let ?r2 = "CHR '':'' # ?S @ CHR ''.'' # ?F"
  let ?r3 = "CHR ''.'' # ?F"
  have str: "Sprintf_npt h m sec ms = ?H @ ?r1" by (simp add: Sprintf_npt_def)
  have lH: "length ?H \<le> 19" using field_length_le [OF h(1,2), of 2] by simp
  have lM: "length ?M = 2" using m by (intro field_length [where k = 2]) simp_all
  have lS: "length ?S = 2" using s by (intro field_length [where k = 2]) simp_all
  have lF: "length ?F = 3" using ms by (intro field_length [where k = 3]) simp_all
  have m63: "m < 2 ^ 63" "sec < 2 ^ 63" "ms < 2 ^ 63" using m s ms by simp_all
  let ?s0 = "\<lparr>input = Sprintf_npt h m sec ms, count = 0, argLimit = hugeWid\<rparr>"
  let ?s1 = "?s0\<lparr>input := ?r1, count := count ?s0 + int (length ?H)\<rparr>"
  have v1: "scan_verb hugeWid ?s0 = Inr (h, ?s1)"
    using lH field_props [OF h(1,3), of 2]
    by (intro scan_verb_digits) (simp_all add: str stops_colon hugeWid_val)
  let ?s2 = "?s1\<lparr>input := ?M @ ?r2, count := count ?s1 + 1\<rparr>"
  have l1: "scan_literal (CHR '':'') ?s1 = Inr ?s2"
    using lH by (intro scan_literal_ok) (simp_all add: hugeWid_val)
  let ?s3 = "?s2\<lparr>input := ?r2, count := count ?s2 + int (length ?M)\<rparr>"
  have v2: "scan_verb 2 ?s2 = Inr (m, ?s3)"
    using lH lM field_props [OF m(1) m63(1), of 2]
    by (intro scan_verb_digits) (simp_all add: stops_colon hugeWid_val)
  let ?s4 = "?s3\<lparr>input := ?S @ ?r3, count := count ?s3 + 1\<rparr>"
  have l2: "scan_literal (CHR '':'') ?s3 = Inr ?s4"
    using lH lM by (intro scan_literal_ok) (simp_all add: hugeWid_val)
  let ?s5 = "?s4\<lparr>input := ?r3, count := count ?s4 + int (length ?S)\<rparr>"
  have v3: "scan_verb 2 ?s4 = Inr (sec, ?s5)"
    using lH lM lS field_props [OF s(1) m63(2), of 2]
    by (intro scan_verb_digits) (simp_all add: stops_dot hugeWid_val)
  let ?s6 = "?s5\<lparr>input := ?F @ [], count := count ?s5 + 1\<rparr>"
  have l3: "scan_literal (CHR ''.'') ?s5 = Inr ?s6"
    using lH lM lS by (intro scan_literal_ok) (simp_all add: hugeWid_val)
  let ?s7 = "?s6\<lparr>input := [], count := count ?s6 + int (length ?F)\<rparr>"
  have v4: "scan_verb 3 ?s6 = Inr (ms, ?s7)"
    using lH lM lS lF field_props [OF ms(1) m63(3), of 3]
    by (intro scan_verb_digits) (simp_all add: stops_nil hugeWid_val)
  show ?thesis
    unfolding Sscanf_npt_def Let_def v1 sum.case prod.case l1 v2 l2 v3 l3 v4 by simp
qed

section \<open>Properties of the play time functions\<close>

lemma unit_vals: "Millisecond = 1000000" "Second = 1000000000" "Minute = 60000000000" "Hour = 3600000000000"
  by (simp_all add: Millisecond_def Second_def Minute_def Hour_def)

lemma go_div_nonneg: "0 \<le> a \<Longrightarrow> 0 < b \<Longrightarrow> go_div a b = a div b"
  by (simp add: go_div_def)

lemma go_mod_nonneg: "0 \<le> a \<Longrightarrow> 0 < b \<Longrightarrow> go_mod a b = a mod b"
  by (simp add: go_mod_def go_div_nonneg minus_mult_div_eq_mod)

lemma divmod_step:
  fixes q k r :: int
  assumes "0 \<le> r" and "r < k"
  shows "(q * k + r) div k = q" and "(q * k + r) mod k = r"
  using assms by simp_all

lemma FormatNPTTime_canonical:
  assumes "0 \<le> h" "0 \<le> m" "m < 60" "0 \<le> sec" "sec < 60" "0 \<le> ms" "ms < 1000"
  shows "FormatNPTTime (h * Hour + m * Minute + sec * Second + ms * Millisecond) = Sprintf_npt h m sec ms"
proof -
  define t where "t = h * Hour + m * Minute + sec * Second + ms * Millisecond"
  define a where "a = h * 3600000 + m * 60000 + sec * 1000 + ms"
  define b where "b = h * 3600 + m * 60 + sec"
  define c where "c = h * 60 + m"
  have t: "t = a * 1000000 + 0" by (simp add: t_def a_def unit_vals)
  have a: "a = b * 1000 + ms" by (simp add: a_def b_def)
  have b: "b = c * 60 + sec" by (simp add: b_def c_def)
  have c: "c = h * 60 + m" by (simp add: c_def)
  have nn: "0 \<le> t" "0 \<le> a" "0 \<le> b" "0 \<le> c"
    using assms by (simp_all add: t_def a_def b_def c_def unit_vals)
  have d1: "go_div t Millisecond = a"
    using nn(1) divmod_step(1) [of 0 1000000 a] by (simp add: go_div_nonneg unit_vals t)
  have m2: "go_mod a 1000 = ms"
    using nn(2) divmod_step(2) [of ms 1000 b] assms by (simp add: go_mod_nonneg a)
  have d2: "go_div a 1000 = b"
    using nn(2) divmod_step(1) [of ms 1000 b] assms by (simp add: go_div_nonneg a)
  have m3: "go_mod b 60 = sec"
    using nn(3) divmod_step(2) [of sec 60 c] assms by (simp add: go_mod_nonneg b)
  have d3: "go_div b 60 = c"
    using nn(3) divmod_step(1) [of sec 60 c] assms by (simp add: go_div_nonneg b)
  have m4: "go_mod c 60 = m"
    using nn(4) divmod_step(2) [of m 60 h] assms by (simp add: go_mod_nonneg c)
  have d4: "go_div c 60 = h"
    using nn(4) divmod_step(1) [of m 60 h] assms by (simp add: go_div_nonneg c)
  show ?thesis
    unfolding FormatNPTTime_def Let_def t_def [symmetric] d1 m2 d2 m3 d3 m4 d4 ..
qed

lemma wrap64_in_range: "- (2 ^ 63) \<le> x \<Longrightarrow> x < 2 ^ 63 \<Longrightarrow> wrap64 x = x"
  by (simp add: wrap64_def)

lemma ParseNPTTime_canonical:
  assumes "0 \<le> h" "0 \<le> m" "m < 60" "0 \<le> sec" "sec < 60" "0 \<le> ms" "ms < 1000"
    and "h * Hour + m * Minute + sec * Second + ms * Millisecond < 2 ^ 63"
  shows "ParseNPTTime (Sprintf_npt h m sec ms) =
           (h * Hour + m * Minute + sec * Second + ms * Millisecond, None)"
proof -
  have hb: "h * 3600000000000 < 2 ^ 63" using assms by (simp add: unit_vals)
  then have h63: "h < 2 ^ 63" and h19: "h < 10 ^ 19" using assms(1) by simp_all
  have sc: "Sscanf_npt (Sprintf_npt h m sec ms) =
           \<lparr>n_scanned = 4, scan_err = None, val_h = h, val_m = m, val_sec = sec, val_ms = ms\<rparr>"
    using assms(1) h19 h63 assms(2-7) by (rule Sscanf_npt_canonical)
  have w1: "wrap64 (h * Hour) = h * Hour"
    using assms by (intro wrap64_in_range) (simp_all add: unit_vals)
  have w2: "wrap64 (m * Minute) = m * Minute"
    using assms by (intro wrap64_in_range) (simp_all add: unit_vals)
  have w3: "wrap64 (sec * Second) = sec * Second"
    using assms by (intro wrap64_in_range) (simp_all add: unit_vals)
  have w4: "wrap64 (ms * Millisecond) = ms * Millisecond"
    using assms by (intro wrap64_in_range) (simp_all add: unit_vals)
  have w5: "wrap64 (h * Hour + m * Minute) = h * Hour + m * Minute"
    using assms by (intro wrap64_in_range) (simp_all add: unit_vals)
  have w6: "wrap64 (h * Hour + m * Minute + sec * Second) = h * Hour + m * Minute + sec * Second"
    using assms by (intro wrap64_in_range) (simp_all add: unit_vals)
  have w7: "wrap64 (h * Hour + m * Minute + sec * Second + ms * Millisecond)
              = h * Hour + m * Minute + sec * Second + ms * Millisecond"
    using assms by (intro wrap64_in_range) (simp_all add: unit_vals)
  show ?thesis
    unfolding ParseNPTTime_def Let_def sc by (simp add: w1 w2 w3 w4 w5 w6 w7)
qed

text \<open>
  C7, as amended. A canonical play time whose hour field has at least two digits is what
  \<open>Sprintf_npt\<close> renders from an hour that is not negative, a minute and a second below 60
  and a millisecond count below 1000. For each such text whose value fits a 64-bit duration,
  parsing succeeds and formatting the parsed duration gives the text back.
\<close>

theorem npt_round_trip:
  assumes "0 \<le> h" "0 \<le> m" "m < 60" "0 \<le> sec" "sec < 60" "0 \<le> ms" "ms < 1000"
    and "h * Hour + m * Minute + sec * Second + ms * Millisecond < 2 ^ 63"
  shows "snd (ParseNPTTime (Sprintf_npt h m sec ms)) = None \<and>
         FormatNPTTime (fst (ParseNPTTime (Sprintf_npt h m sec ms))) = Sprintf_npt h m sec ms"
  using ParseNPTTime_canonical [OF assms] FormatNPTTime_canonical [OF assms(1-7)] by simp

theorem npt_round_trip_witness:
  "(0::int) \<le> 12 \<and> (0::int) \<le> 34 \<and> (34::int) < 60 \<and> (0::int) \<le> 56 \<and> (56::int) < 60 \<and>
   (0::int) \<le> 789 \<and> (789::int) < 1000 \<and>
   12 * Hour + 34 * Minute + 56 * Second + 789 * Millisecond < 2 ^ 63 \<and>
   Sprintf_npt 12 34 56 789 = ''12:34:56.789'' \<and>
   snd (ParseNPTTime ''12:34:56.789'') = None \<and>
   FormatNPTTime (fst (ParseNPTTime ''12:34:56.789'')) = ''12:34:56.789''"
proof -
  have s: "Sprintf_npt 12 34 56 789 = ''12:34:56.789''"
    by code_simp
  have b: "12 * Hour + 34 * Minute + 56 * Second + 789 * Millisecond < 2 ^ 63"
    by (simp add: unit_vals)
  from npt_round_trip [of 12 34 56 789] b s show ?thesis by simp
qed

text \<open>
  C7 as stated fails for an hour of one digit: the text \<open>1:00:00.000\<close> is parsed, and the
  formatter pads the hour to two digits.
\<close>

theorem npt_round_trip_counterexample:
  "snd (ParseNPTTime ''1:00:00.000'') = None \<and>
   FormatNPTTime (fst (ParseNPTTime ''1:00:00.000'')) = ''01:00:00.000'' \<and>
   FormatNPTTime (fst (ParseNPTTime ''1:00:00.000'')) \<noteq> ''1:00:00.000''"
  by code_simp

text \<open>Without an error all four operands were stored: the test \<open>n < 3\<close> never fires.\<close>

lemma Sscanf_npt_all_or_error: "scan_err (Sscanf_npt s) = None \<Longrightarrow> n_scanned (Sscanf_npt s) = 4"
  unfolding Sscanf_npt_def Let_def
  by (cases "scan_verb hugeWid \<lparr>input = s, count = 0, argLimit = hugeWid\<rparr>")
     (auto split: sum.splits prod.splits)

text \<open>
  C3. The claim: a text with hour, minute and second and no fraction, such as \<open>1:00:00\<close>,
  is parsed. The scan stores three operands and then meets the end of the input where the
  format has a dot, which \<open>Sscanf\<close> reports as an error; \<open>ParseNPTTime\<close> returns that
  error before it looks at the number of operands.
\<close>

theorem ParseNPTTime_no_fraction:
  "ParseNPTTime ''1:00:00'' = (- 1, Some (ScanError ErrUnexpectedEOF)) \<and>
   n_scanned (Sscanf_npt ''1:00:00'') = 3"
  by code_simp

lemma SplitN2_dash:
  assumes "sep \<notin> set a"
  shows "SplitN2 (a @ sep # b) sep = [a, b]"
proof -
  from assms have ne: "\<And>x. x \<in> set a \<Longrightarrow> x \<noteq> sep" by auto
  have "takeWhile (\<lambda>c. c \<noteq> sep) (a @ sep # b) = a"
    using ne by (simp add: takeWhile_append2)
  moreover have "dropWhile (\<lambda>c. c \<noteq> sep) (a @ sep # b) = sep # b"
    using ne by (simp add: dropWhile_append2)
  ultimately show ?thesis by (simp add: SplitN2_def)
qed

lemma ParseNPTRange_no_dash:
  assumes "CHR ''-'' \<notin> set s"
  shows "ParseNPTRange s =
           (if s = [] \<or> snd (ParseNPTTime s) = None then Panic
            else Return (NPTRange_zero\<lparr>Start := fst (ParseNPTTime s)\<rparr>, snd (ParseNPTTime s)))"
proof -
  from assms have sp: "SplitN2 s (CHR ''-'') = [s]" by (simp add: SplitN2_def)
  show ?thesis unfolding ParseNPTRange_def sp by (simp add: NPTRange_index_def Let_def)
qed

lemma ParseNPTRange_dash:
  assumes "CHR ''-'' \<notin> set a"
  shows "ParseNPTRange (a @ CHR ''-'' # b) =
           (if a \<noteq> [] \<and> snd (ParseNPTTime a) \<noteq> None
            then Return (NPTRange_zero\<lparr>Start := fst (ParseNPTTime a)\<rparr>, snd (ParseNPTTime a))
            else if b \<noteq> []
            then Return ((if a = [] then NPTRange_zero
                          else NPTRange_zero\<lparr>Start := fst (ParseNPTTime a)\<rparr>)
                            \<lparr>End := fst (ParseNPTTime b)\<rparr>, snd (ParseNPTTime b))
            else Return (if a = [] then NPTRange_zero
                         else NPTRange_zero\<lparr>Start := fst (ParseNPTTime a)\<rparr>, None))"
  unfolding ParseNPTRange_def SplitN2_dash [OF assms]
  by (simp add: NPTRange_index_def Let_def)

text \<open>
  C10, as amended. An input with a \<open>-\<close> never panics. An input without one panics exactly
  when it is empty or is a play time that \<open>ParseNPTTime\<close> accepts: only then is the second
  component of the split reached; when it is not empty and \<open>ParseNPTTime\<close> rejects it,
  the function returns that error, with the value \<open>ParseNPTTime\<close> gave as the start.
  With a \<open>-\<close>, a start that is not empty and fails to parse is returned first, whatever
  follows the \<open>-\<close>; otherwise the result is the end time and the error of the text after
  the \<open>-\<close>, or no error when that text is empty.
\<close>

theorem ParseNPTRange_panic:
  "(CHR ''-'' \<in> set s \<longrightarrow> ParseNPTRange s \<noteq> Panic) \<and>
   (CHR ''-'' \<notin> set s \<longrightarrow>
      (ParseNPTRange s = Panic) = (s = [] \<or> snd (ParseNPTTime s) = None)) \<and>
   (CHR ''-'' \<notin> set s \<and> s \<noteq> [] \<and> snd (ParseNPTTime s) \<noteq> None \<longrightarrow>
      ParseNPTRange s =
        Return (NPTRange_zero\<lparr>Start := fst (ParseNPTTime s)\<rparr>, snd (ParseNPTTime s))) \<and>
   (CHR ''-'' \<notin> set a \<and> a \<noteq> [] \<and> snd (ParseNPTTime a) \<noteq> None \<longrightarrow>
      ParseNPTRange (a @ CHR ''-'' # b) =
        Return (NPTRange_zero\<lparr>Start := fst (ParseNPTTime a)\<rparr>, snd (ParseNPTTime a))) \<and>
   (CHR ''-'' \<notin> set a \<and> (a = [] \<or> snd (ParseNPTTime a) = None) \<longrightarrow>
      ParseNPTRange (a @ CHR ''-'' # b) =
        Return (if b = []
                then (if a = [] then NPTRange_zero
                      else NPTRange_zero\<lparr>Start := fst (ParseNPTTime a)\<rparr>, None)
                else ((if a = [] then NPTRange_zero
                       else NPTRange_zero\<lparr>Start := fst (ParseNPTTime a)\<rparr>)
                         \<lparr>End := fst (ParseNPTTime b)\<rparr>, snd (ParseNPTTime b))))"
proof (intro conjI impI)
  assume "CHR ''-'' \<in> set s"
  with SplitN2_cases [of "CHR ''-''" s] obtain a b where "s = a @ CHR ''-'' # b" "CHR ''-'' \<notin> set a"
    by auto
  then show "ParseNPTRange s \<noteq> Panic"
    by (simp add: ParseNPTRange_dash)
next
  assume "CHR ''-'' \<notin> set s"
  then show "(ParseNPTRange s = Panic) = (s = [] \<or> snd (ParseNPTTime s) = None)"
    by (simp add: ParseNPTRange_no_dash)
next
  assume "CHR ''-'' \<notin> set s \<and> s \<noteq> [] \<and> snd (ParseNPTTime s) \<noteq> None"
  then show "ParseNPTRange s =
        Return (NPTRange_zero\<lparr>Start := fst (ParseNPTTime s)\<rparr>, snd (ParseNPTTime s))"
    by (simp add: ParseNPTRange_no_dash)
next
  assume "CHR ''-'' \<notin> set a \<and> a \<noteq> [] \<and> snd (ParseNPTTime a) \<noteq> None"
  then show "ParseNPTRange (a @ CHR ''-'' # b) =
        Return (NPTRange_zero\<lparr>Start := fst (ParseNPTTime a)\<rparr>, snd (ParseNPTTime a))"
    by (simp add: ParseNPTRange_dash)
next
  assume "CHR ''-'' \<notin> set a \<and> (a = [] \<or> snd (ParseNPTTime a) = None)"
  then show "ParseNPTRange (a @ CHR ''-'' # b) =
        Return (if b = []
                then (if a = [] then NPTRange_zero
                      else NPTRange_zero\<lparr>Start := fst (ParseNPTTime a)\<rparr>, None)
                else ((if a = [] then NPTRange_zero
                       else NPTRange_zero\<lparr>Start := fst (ParseNPTTime a)\<rparr>)
                         \<lparr>End := fst (ParseNPTTime b)\<rparr>, snd (ParseNPTTime b)))"
    by (auto simp: ParseNPTRange_dash)
qed

theorem ParseNPTRange_panic_witness:
  "CHR ''-'' \<in> set ''0:00:01.000-'' \<and> ParseNPTRange ''0:00:01.000-'' \<noteq> Panic \<and>
   CHR ''-'' \<notin> set ''0:00:01.000'' \<and> snd (ParseNPTTime ''0:00:01.000'') = None \<and>
   ParseNPTRange ''0:00:01.000'' = Panic \<and>
   CHR ''-'' \<notin> set ''abc'' \<and> ''abc'' \<noteq> [] \<and>
   snd (ParseNPTTime ''abc'') = Some (ScanError ErrExpectedInteger) \<and>
   ParseNPTRange ''abc'' =
     Return (NPTRange_zero\<lparr>Start := fst (ParseNPTTime ''abc'')\<rparr>, snd (ParseNPTTime ''abc'')) \<and>
   CHR ''-'' \<notin> set ''x'' \<and> ''x'' \<noteq> [] \<and>
   snd (ParseNPTTime ''x'') = Some (ScanError ErrExpectedInteger) \<and>
   ParseNPTRange (''x'' @ CHR ''-'' # ''0:00:02.000'') =
     Return (NPTRange_zero\<lparr>Start := fst (ParseNPTTime ''x'')\<rparr>, snd (ParseNPTTime ''x'')) \<and>
   ParseNPTRange (''0:00:01.000'' @ CHR ''-'' # ''0:00:02.000'') =
     Return (NPTRange_zero\<lparr>Start := fst (ParseNPTTime ''0:00:01.000''),
                               End := fst (ParseNPTTime ''0:00:02.000'')\<rparr>,
             snd (ParseNPTTime ''0:00:02.000''))"
proof -
  have p: "snd (ParseNPTTime ''0:00:01.000'') = None"
    by code_simp
  have e: "snd (ParseNPTTime ''abc'') = Some (ScanError ErrExpectedInteger)"
    "snd (ParseNPTTime ''x'') = Some (ScanError ErrExpectedInteger)"
    by code_simp+
  have d: "CHR ''-'' \<in> set ''0:00:01.000-''" "CHR ''-'' \<notin> set ''0:00:01.000''"
    "CHR ''-'' \<notin> set ''abc''" "''abc'' \<noteq> []" "CHR ''-'' \<notin> set ''x''" "''x'' \<noteq> []"
    "''0:00:01.000'' \<noteq> []" "''0:00:02.000'' \<noteq> []"
    by simp_all
  have 1: "ParseNPTRange ''0:00:01.000-'' \<noteq> Panic"
    using ParseNPTRange_panic [of "''0:00:01.000-''" "[]" "[]"] d(1) by blast
  have 2: "ParseNPTRange ''0:00:01.000'' = Panic"
    using ParseNPTRange_panic [of "''0:00:01.000''" "[]" "[]"] d(2) p by blast
  have 3: "ParseNPTRange ''abc'' =
     Return (NPTRange_zero\<lparr>Start := fst (ParseNPTTime ''abc'')\<rparr>, snd (ParseNPTTime ''abc''))"
    using ParseNPTRange_panic [of "''abc''" "[]" "[]"] d(3,4) e(1) by simp
  have 4: "ParseNPTRange (''x'' @ CHR ''-'' # ''0:00:02.000'') =
     Return (NPTRange_zero\<lparr>Start := fst (ParseNPTTime ''x'')\<rparr>, snd (ParseNPTTime ''x''))"
    using ParseNPTRange_panic [of "[]" "''x''" "''0:00:02.000''"] d(5,6) e(2) by simp
  have 5: "ParseNPTRange (''0:00:01.000'' @ CHR ''-'' # ''0:00:02.000'') =
     Return (NPTRange_zero\<lparr>Start := fst (ParseNPTTime ''0:00:01.000''),
                               End := fst (ParseNPTTime ''0:00:02.000'')\<rparr>,
             snd (ParseNPTTime ''0:00:02.000''))"
    using ParseNPTRange_panic [of "[]" "''0:00:01.000''" "''0:00:02.000''"] d(2,7,8) p
    by (simp del: append.simps list.simps One_nat_def)
  from d p e 1 2 3 4 5 show ?thesis by blast
qed

text \<open>
  C10 as stated says every input without \<open>-\<close> panics. The input \<open>abc\<close> has none, and the
  function returns the error of \<open>ParseNPTTime\<close>.
\<close>

theorem ParseNPTRange_no_dash_counterexample:
  "CHR ''-'' \<notin> set ''abc'' \<and>
   ParseNPTRange ''abc'' =
     Return (\<lparr>Start = - 1, End = 0, StartByte = 0, EndByte = 0\<rparr>,
             Some (ScanError ErrExpectedInteger))"
  by code_simp

section \<open>Rounding to float64\<close>

lemma two_powi_nat: "0 \<le> k \<Longrightarrow> (2::rat) powi k = 2 ^ nat k"
  by (simp add: power_int_def)

lemma two_powi_neg: "0 \<le> k \<Longrightarrow> (2::rat) powi (- k) = 1 / 2 ^ nat k"
  by (simp add: power_int_def field_simps)

lemma bitlen_pos: "0 < n \<Longrightarrow> 1 \<le> bitlen n"
  using bitlen_eq_zero_iff [of n] bitlen_nonneg [of n] by linarith

lemma bitlen_bounds_rat:
  assumes "0 < n"
  shows "(2::rat) ^ nat (bitlen n - 1) \<le> of_int n" and "(of_int n :: rat) + 1 \<le> 2 ^ nat (bitlen n)"
proof -
  from bitlen_bounds [OF assms] have a: "2 ^ nat (bitlen n - 1) \<le> n" and b: "n + 1 \<le> 2 ^ nat (bitlen n)"
    by simp_all
  from a have "(of_int (2 ^ nat (bitlen n - 1)) :: rat) \<le> of_int n" by (simp only: of_int_le_iff)
  then show "(2::rat) ^ nat (bitlen n - 1) \<le> of_int n" by simp
  from b have "(of_int (n + 1) :: rat) \<le> of_int (2 ^ nat (bitlen n))" by (simp only: of_int_le_iff)
  then show "(of_int n :: rat) + 1 \<le> 2 ^ nat (bitlen n)" by simp
qed

lemma floor_log2_bounds:
  assumes "0 < x"
  shows "2 powi (floor_log2 x) \<le> x" and "x < 2 powi (floor_log2 x + 1)"
proof -
  have "2 powi (floor_log2 x) \<le> x \<and> x < 2 powi (floor_log2 x + 1)"
  proof (cases "1 \<le> x")
    case True
    define n where "n = \<lfloor>x\<rfloor>"
    from True have n: "0 < n" unfolding n_def by simp
    have fl: "floor_log2 x = bitlen n - 1" using True by (simp add: floor_log2_def n_def)
    have k: "0 \<le> bitlen n - 1" using bitlen_pos [OF n] by simp
    have "of_int n \<le> x" and "x < of_int n + 1" unfolding n_def by linarith+
    with bitlen_bounds_rat [OF n] have "2 ^ nat (bitlen n - 1) \<le> x" and "x < 2 ^ nat (bitlen n)"
      by linarith+
    moreover have "(2::rat) powi (bitlen n - 1) = 2 ^ nat (bitlen n - 1)" using k by (rule two_powi_nat)
    moreover have "(2::rat) powi (bitlen n - 1 + 1) = 2 ^ nat (bitlen n)"
      using bitlen_nonneg [of n] by (simp add: two_powi_nat)
    ultimately show ?thesis unfolding fl by simp
  next
    case False
    define y where "y = 1 / x"
    define n where "n = \<lceil>y\<rceil> - 1"
    from False assms have y1: "1 < y" unfolding y_def by simp
    then have n: "0 < n" unfolding n_def by linarith
    have fl: "floor_log2 x = - bitlen n" using False by (simp add: floor_log2_def n_def y_def)
    have yb: "of_int n < y" "y \<le> of_int n + 1" unfolding n_def by linarith+
    from bitlen_bounds_rat [OF n] yb
    have lo: "2 ^ nat (bitlen n - 1) < y" and hi: "y \<le> 2 ^ nat (bitlen n)" by linarith+
    have x: "x = 1 / y" unfolding y_def using assms by simp
    have ypos: "0 < y" using y1 by simp
    have a: "1 / 2 ^ nat (bitlen n) \<le> x"
      unfolding x using hi ypos by (simp add: field_simps)
    have b: "x < 1 / 2 ^ nat (bitlen n - 1)"
      unfolding x using lo ypos by (simp add: field_simps)
    have p1: "(2::rat) powi (- bitlen n) = 1 / 2 ^ nat (bitlen n)"
      using bitlen_nonneg [of n] by (rule two_powi_neg)
    have "- bitlen n + 1 = - (bitlen n - 1)" by simp
    then have p2: "(2::rat) powi (- bitlen n + 1) = 1 / 2 ^ nat (bitlen n - 1)"
      using two_powi_neg [of "bitlen n - 1"] bitlen_pos [OF n] by simp
    show ?thesis unfolding fl p1 p2 using a b by simp
  qed
  then show "2 powi (floor_log2 x) \<le> x" and "x < 2 powi (floor_log2 x + 1)" by simp_all
qed

lemma two_powi_less_cancel: "(2::rat) powi a < 2 powi b \<Longrightarrow> a < b"
  by (rule ccontr) (simp add: not_less power_int_increasing [of b a 2, THEN leD])

lemma floor_log2_unique:
  assumes "2 powi n \<le> x" and "x < 2 powi (n + 1)"
  shows "floor_log2 x = n"
proof -
  have "(0::rat) < 2 powi n" by simp
  with assms(1) have x: "0 < x" by linarith
  from floor_log2_bounds [OF x] assms
  have "(2::rat) powi n < 2 powi (floor_log2 x + 1)" and "(2::rat) powi (floor_log2 x) < 2 powi (n + 1)"
    by linarith+
  then have "n < floor_log2 x + 1" and "floor_log2 x < n + 1" by (auto dest: two_powi_less_cancel)
  then show ?thesis by simp
qed

lemma floor_log2_mono:
  assumes "0 < x" and "x \<le> y"
  shows "floor_log2 x \<le> floor_log2 y"
proof -
  from assms have y: "0 < y" by simp
  from floor_log2_bounds(1) [OF assms(1)] floor_log2_bounds(2) [OF y] assms(2)
  have "(2::rat) powi (floor_log2 x) < 2 powi (floor_log2 y + 1)" by linarith
  then have "floor_log2 x < floor_log2 y + 1" by (rule two_powi_less_cancel)
  then show ?thesis by simp
qed

lemma round_half_even_int: "round_half_even (of_int n) = n"
  by (simp add: round_half_even_def)

lemma round_half_even_bounds: "\<lfloor>x\<rfloor> \<le> round_half_even x" "round_half_even x \<le> \<lfloor>x\<rfloor> + 1"
  by (simp_all add: round_half_even_def Let_def)

lemma round_half_even_mono:
  assumes "x \<le> y"
  shows "round_half_even x \<le> round_half_even y"
proof (cases "\<lfloor>x\<rfloor> = \<lfloor>y\<rfloor>")
  case True
  with assms have "x - of_int \<lfloor>x\<rfloor> \<le> y - of_int \<lfloor>y\<rfloor>" by simp
  with True show ?thesis by (auto simp: round_half_even_def Let_def)
next
  case False
  with assms have "\<lfloor>x\<rfloor> + 1 \<le> \<lfloor>y\<rfloor>" using floor_mono [OF assms] by linarith
  with round_half_even_bounds(2) [of x] round_half_even_bounds(1) [of y] show ?thesis by linarith
qed

lemma scaled_bounds:
  assumes "0 < x"
  shows "2 ^ 52 \<le> x / 2 powi (floor_log2 x - 52)" and "x / 2 powi (floor_log2 x - 52) < 2 ^ 53"
proof -
  let ?f = "floor_log2 x"
  have p: "(0::rat) < 2 powi (?f - 52)" by simp
  have a: "(2::rat) powi ?f = 2 ^ 52 * 2 powi (?f - 52)"
    using power_int_add [of "2::rat" 52 "?f - 52"] by simp
  have b: "(2::rat) powi (?f + 1) = 2 ^ 53 * 2 powi (?f - 52)"
    using power_int_add [of "2::rat" 53 "?f - 52"] by (simp add: add.commute)
  from floor_log2_bounds [OF assms] a b
  have "2 ^ 52 * 2 powi (?f - 52) \<le> x" and "x < 2 ^ 53 * 2 powi (?f - 52)" by simp_all
  with p show "2 ^ 52 \<le> x / 2 powi (?f - 52)" and "x / 2 powi (?f - 52) < 2 ^ 53"
    by (simp_all add: pos_le_divide_eq pos_divide_less_eq)
qed

lemma float64_round_pos:
  "0 < x \<Longrightarrow> float64_round x =
     of_int (round_half_even (x / 2 powi (floor_log2 x - 52))) * 2 powi (floor_log2 x - 52)"
  by (simp add: float64_round_def Let_def)

lemma mantissa_bounds:
  assumes "0 < x"
  shows "2 ^ 52 \<le> round_half_even (x / 2 powi (floor_log2 x - 52))"
    and "round_half_even (x / 2 powi (floor_log2 x - 52)) \<le> 2 ^ 53"
proof -
  let ?y = "x / 2 powi (floor_log2 x - 52)"
  from scaled_bounds [OF assms] have a: "of_int (2 ^ 52) \<le> ?y" and b: "?y \<le> of_int (2 ^ 53)" by simp_all
  from round_half_even_mono [OF a] show "2 ^ 52 \<le> round_half_even ?y"
    by (simp only: round_half_even_int)
  from round_half_even_mono [OF b] show "round_half_even ?y \<le> 2 ^ 53"
    by (simp only: round_half_even_int)
qed

lemma float64_round_bounds:
  assumes "0 < x"
  shows "2 powi (floor_log2 x) \<le> float64_round x" and "float64_round x \<le> 2 powi (floor_log2 x + 1)"
proof -
  let ?f = "floor_log2 x"
  let ?m = "round_half_even (x / 2 powi (?f - 52))"
  have p: "(0::rat) < 2 powi (?f - 52)" by simp
  have a: "(2::rat) powi ?f = 2 ^ 52 * 2 powi (?f - 52)"
    using power_int_add [of "2::rat" 52 "?f - 52"] by simp
  have b: "(2::rat) powi (?f + 1) = 2 ^ 53 * 2 powi (?f - 52)"
    using power_int_add [of "2::rat" 53 "?f - 52"] by (simp add: add.commute)
  from mantissa_bounds [OF assms] have "(of_int (2 ^ 52) :: rat) \<le> of_int ?m" and "(of_int ?m :: rat) \<le> of_int (2 ^ 53)"
    by (simp_all only: of_int_le_iff)
  then have "(2 ^ 52 :: rat) \<le> of_int ?m" and "(of_int ?m :: rat) \<le> 2 ^ 53" by simp_all
  with p have "(2 ^ 52 :: rat) * 2 powi (?f - 52) \<le> of_int ?m * 2 powi (?f - 52)"
    and "(of_int ?m :: rat) * 2 powi (?f - 52) \<le> 2 ^ 53 * 2 powi (?f - 52)"
    by (simp_all add: mult_right_mono)
  then show "2 powi ?f \<le> float64_round x" and "float64_round x \<le> 2 powi (?f + 1)"
    unfolding float64_round_pos [OF assms] a b by simp_all
qed

lemma float64_round_mono_pos:
  assumes "0 < x" and "x \<le> y"
  shows "float64_round x \<le> float64_round y"
proof -
  from assms have y: "0 < y" by simp
  from floor_log2_mono [OF assms] consider "floor_log2 x = floor_log2 y" | "floor_log2 x + 1 \<le> floor_log2 y"
    by linarith
  then show ?thesis
  proof cases
    case 1
    let ?p = "(2::rat) powi (floor_log2 y - 52)"
    have p: "0 < ?p" by simp
    from assms(2) p have "x / ?p \<le> y / ?p" by (simp add: divide_right_mono)
    from round_half_even_mono [OF this]
    have "(of_int (round_half_even (x / ?p)) :: rat) \<le> of_int (round_half_even (y / ?p))"
      by (simp only: of_int_le_iff)
    with p have "of_int (round_half_even (x / ?p)) * ?p \<le> of_int (round_half_even (y / ?p)) * ?p"
      by (simp add: mult_right_mono)
    then show ?thesis
      unfolding float64_round_pos [OF assms(1)] float64_round_pos [OF y] 1 .
  next
    case 2
    then have "(2::rat) powi (floor_log2 x + 1) \<le> 2 powi (floor_log2 y)"
      by (intro power_int_increasing) simp_all
    with float64_round_bounds(2) [OF assms(1)] float64_round_bounds(1) [OF y]
    show ?thesis by linarith
  qed
qed

lemma float64_round_mono:
  assumes "0 \<le> x" and "x \<le> y"
  shows "float64_round x \<le> float64_round y"
proof (cases "x = 0")
  case False
  with assms show ?thesis by (intro float64_round_mono_pos) simp_all
next
  case True
  show ?thesis
  proof (cases "y = 0")
    case True with \<open>x = 0\<close> show ?thesis by simp
  next
    case False
    with assms True have y: "0 < y" by simp
    have "(0::rat) < 2 powi (floor_log2 y)" by simp
    with float64_round_bounds(1) [OF y] have "0 \<le> float64_round y" by linarith
    with True show ?thesis by (simp add: float64_round_def)
  qed
qed

lemma float64_round_exact:
  assumes "0 < x" and "x / 2 powi (floor_log2 x - 52) = of_int k"
  shows "float64_round x = x"
proof -
  have p: "(2::rat) powi (floor_log2 x - 52) \<noteq> 0" by simp
  from assms(2) p have "x = of_int k * 2 powi (floor_log2 x - 52)" by (simp add: field_simps)
  then show ?thesis
    unfolding float64_round_pos [OF assms(1)] assms(2) round_half_even_int by simp
qed

lemma float64_round_int_small:
  assumes "0 \<le> d" and "d \<le> 2 ^ 53"
  shows "float64_round (of_int d) = of_int d"
proof (cases "d = 0")
  case True then show ?thesis by (simp add: float64_round_def)
next
  case False
  with assms have pos: "(0::rat) < of_int d" by simp
  let ?f = "floor_log2 (of_int d)"
  show ?thesis
  proof (cases "d = 2 ^ 53")
    case True
    have "floor_log2 (of_int d) = 53"
      unfolding True by (intro floor_log2_unique) simp_all
    then have "of_int d / 2 powi (?f - 52) = (of_int (2 ^ 52) :: rat)"
      unfolding True by simp
    with pos show ?thesis by (rule float64_round_exact)
  next
    case False
    with assms have lt: "d < 2 ^ 53" by simp
    then have "(of_int d :: rat) < of_int (2 ^ 53)" by (simp only: of_int_less_iff)
    then have "(of_int d :: rat) < 2 powi 53" by simp
    with floor_log2_bounds(1) [OF pos] have "(2::rat) powi ?f < 2 powi 53" by linarith
    then have "?f < 53" by (rule two_powi_less_cancel)
    then have e: "0 \<le> 52 - ?f" by simp
    have "(2::rat) powi (?f - 52) = 1 / 2 ^ nat (52 - ?f)"
      using two_powi_neg [OF e] by simp
    then have "of_int d / 2 powi (?f - 52) = (of_int (d * 2 ^ nat (52 - ?f)) :: rat)"
      by simp
    with pos show ?thesis by (rule float64_round_exact)
  qed
qed

lemma floor_int_half: "\<lfloor>(of_int n :: rat) + 1 / 2\<rfloor> = n"
  by (rule floor_unique) simp_all

lemma go_round_int: "go_round (of_int n) = n"
proof (cases "n < 0")
  case True
  have "\<lfloor>- (of_int n :: rat) + 1 / 2\<rfloor> = - n"
    using floor_int_half [of "- n"] by simp
  with True show ?thesis by (simp add: go_round_def)
next
  case False
  with floor_int_half [of n] show ?thesis by (simp add: go_round_def)
qed

lemma go_round_mono_nonneg: "0 \<le> x \<Longrightarrow> x \<le> y \<Longrightarrow> go_round x \<le> go_round y"
  by (simp add: go_round_def floor_mono)

lemma go_round_nonneg: "0 \<le> x \<Longrightarrow> 0 \<le> go_round x"
  by (simp add: go_round_def)

section \<open>Properties of the position calculation\<close>

lemma float64_round_top: "float64_round 9223372036854775295 = 9223372036854774784"
  by code_simp

lemma calculateNPTPosition_unfold:
  "0 < t \<Longrightarrow> calculateNPTPosition b t d =
     int64_of_float (go_round (float64_round (of_int b * of_int d / of_int t)))"
  by (simp add: calculateNPTPosition_def Let_def Fract_of_int_quotient)

lemma position_in_range:
  assumes "0 < t" and "0 \<le> d" and "d < 2 ^ 63 - 512" and "0 \<le> b" and "b \<le> t"
  shows "calculateNPTPosition b t d = go_round (float64_round (of_int b * of_int d / of_int t))"
    and "0 \<le> calculateNPTPosition b t d"
proof -
  let ?x = "(of_int b * of_int d / of_int t) :: rat"
  have tpos: "(0::rat) < of_int t" using assms(1) by simp
  have x0: "0 \<le> ?x" using assms by simp
  have "(of_int b :: rat) * of_int d \<le> of_int t * of_int d"
    using assms by (intro mult_right_mono) simp_all
  then have xd: "?x \<le> of_int d" using tpos by (simp add: pos_divide_le_eq mult.commute)
  from assms(3) have "d \<le> 9223372036854775295" by simp
  then have "(of_int d :: rat) \<le> of_int 9223372036854775295" by (simp only: of_int_le_iff)
  with xd have xt: "?x \<le> 9223372036854775295" by simp
  have f0: "0 \<le> float64_round ?x"
    using float64_round_mono [of 0 ?x] x0 by (simp add: float64_round_def)
  have ft: "float64_round ?x \<le> 9223372036854774784"
    using float64_round_mono [OF x0 xt] by (simp only: float64_round_top)
  have g0: "0 \<le> go_round (float64_round ?x)" using f0 by (rule go_round_nonneg)
  have "go_round (float64_round ?x) \<le> go_round (of_int 9223372036854774784)"
    using f0 ft by (intro go_round_mono_nonneg) simp_all
  then have gt: "go_round (float64_round ?x) \<le> 9223372036854774784"
    by (simp only: go_round_int)
  from g0 gt have "is_int64 (go_round (float64_round ?x))" by (simp add: is_int64_def)
  then show "calculateNPTPosition b t d = go_round (float64_round ?x)"
    unfolding calculateNPTPosition_unfold [OF assms(1)] by (simp add: int64_of_float_def)
  with g0 show "0 \<le> calculateNPTPosition b t d" by simp
qed

lemma position_mono:
  assumes "0 < t" and "0 \<le> d" and "d < 2 ^ 63 - 512" and "0 \<le> b1" and "b1 \<le> b2" and "b2 \<le> t"
  shows "calculateNPTPosition b1 t d \<le> calculateNPTPosition b2 t d"
proof -
  have tpos: "(0::rat) < of_int t" using assms(1) by simp
  have "(of_int b1 :: rat) * of_int d \<le> of_int b2 * of_int d"
    using assms by (intro mult_right_mono) simp_all
  then have le: "(of_int b1 * of_int d / of_int t :: rat) \<le> of_int b2 * of_int d / of_int t"
    using tpos by (simp add: divide_right_mono)
  have x0: "(0::rat) \<le> of_int b1 * of_int d / of_int t" using assms by simp
  have f0: "0 \<le> float64_round (of_int b1 * of_int d / of_int t)"
    using float64_round_mono [OF order_refl x0] by (simp add: float64_round_def)
  have "go_round (float64_round (of_int b1 * of_int d / of_int t))
          \<le> go_round (float64_round (of_int b2 * of_int d / of_int t))"
    using f0 float64_round_mono [OF x0 le] by (rule go_round_mono_nonneg)
  moreover have "0 \<le> b2" "b1 \<le> t" using assms by simp_all
  ultimately show ?thesis
    using position_in_range(1) [OF assms(1-4) \<open>b1 \<le> t\<close>]
      position_in_range(1) [OF assms(1-3) \<open>0 \<le> b2\<close> assms(6)] by simp
qed

lemma position_zero: "calculateNPTPosition 0 t d = 0"
proof -
  have "go_round 0 = 0" using go_round_int [of 0] by simp
  then show ?thesis
    by (simp add: calculateNPTPosition_def Let_def float64_round_def int64_of_float_def
        is_int64_def rat_number_collapse)
qed

lemma position_full:
  assumes "0 < t" and "is_int64 d" and "float64_round (of_int d) = of_int d"
  shows "calculateNPTPosition t t d = d"
proof -
  have "(of_int t * of_int d / of_int t :: rat) = of_int d" using assms(1) by simp
  then show ?thesis
    unfolding calculateNPTPosition_unfold [OF assms(1)]
    using assms(2,3) by (simp add: go_round_int int64_of_float_def)
qed

lemma start_time_is_position:
  assumes "snd (ParseHTTPRangeToNPTRange h t d) = None"
  shows "Start (fst (ParseHTTPRangeToNPTRange h t d))
           = calculateNPTPosition (StartByte (fst (ParseHTTPRangeToNPTRange h t d))) t d"
proof (cases "whole_resource h t")
  case True
  then show ?thesis
    by (simp add: ParseHTTPRangeToNPTRange_def ParseHTTPRange_with_def position_zero)
next
  case False
  from range_result_cases [OF False, of calculateNPTPosition d] assms
  show ?thesis by (auto simp: ParseHTTPRangeToNPTRange_def)
qed

text \<open>
  C2, as amended. For a positive total size and a duration from 0 up to, and not
  including, \<open>2^63 - 512\<close> nanoseconds, the time computed for a byte offset does not
  decrease when the offset grows within \<open>[0, totalSize]\<close>, and offset 0 gives time 0.
  Offset \<open>totalSize\<close> gives the whole duration whenever the duration is a \<open>float64\<close>
  value, as every duration up to \<open>2^53\<close> nanoseconds is. The start time that
  \<open>ParseHTTPRangeToNPTRange\<close> returns is this time of its start byte.
\<close>

theorem position_monotone_exact:
  assumes "0 < totalSize" and "0 \<le> duration" and "duration < 2 ^ 63 - 512"
  shows "(0 \<le> b1 \<and> b1 < b2 \<and> b2 \<le> totalSize \<longrightarrow>
            calculateNPTPosition b1 totalSize duration \<le> calculateNPTPosition b2 totalSize duration) \<and>
         calculateNPTPosition 0 totalSize duration = 0 \<and>
         (float64_round (of_int duration) = of_int duration \<longrightarrow>
            calculateNPTPosition totalSize totalSize duration = duration) \<and>
         (duration \<le> 2 ^ 53 \<longrightarrow> calculateNPTPosition totalSize totalSize duration = duration) \<and>
         (snd (ParseHTTPRangeToNPTRange h totalSize duration) = None \<longrightarrow>
            Start (fst (ParseHTTPRangeToNPTRange h totalSize duration)) =
              calculateNPTPosition (StartByte (fst (ParseHTTPRangeToNPTRange h totalSize duration)))
                totalSize duration)"
proof (intro conjI impI)
  assume "0 \<le> b1 \<and> b1 < b2 \<and> b2 \<le> totalSize"
  then show "calculateNPTPosition b1 totalSize duration \<le> calculateNPTPosition b2 totalSize duration"
    using assms by (intro position_mono) simp_all
next
  show "calculateNPTPosition 0 totalSize duration = 0" by (rule position_zero)
next
  have i: "is_int64 duration" using assms by (simp add: is_int64_def)
  {
    assume "float64_round (of_int duration) = of_int duration"
    with assms(1) i show "calculateNPTPosition totalSize totalSize duration = duration"
      by (rule position_full)
  }
  {
    assume "duration \<le> 2 ^ 53"
    with assms(2) have "float64_round (of_int duration) = of_int duration"
      by (rule float64_round_int_small)
    with assms(1) i show "calculateNPTPosition totalSize totalSize duration = duration"
      by (rule position_full)
  }
next
  assume "snd (ParseHTTPRangeToNPTRange h totalSize duration) = None"
  then show "Start (fst (ParseHTTPRangeToNPTRange h totalSize duration)) =
              calculateNPTPosition (StartByte (fst (ParseHTTPRangeToNPTRange h totalSize duration)))
                totalSize duration"
    by (rule start_time_is_position)
qed

theorem position_monotone_exact_witness:
  "(0::int) < 1000 \<and> (0::int) \<le> 5000 \<and> (5000::int) < 2 ^ 63 - 512 \<and>
   (0::int) \<le> 333 \<and> (333::int) < 334 \<and> (334::int) \<le> 1000 \<and>
   calculateNPTPosition 333 1000 5000 \<le> calculateNPTPosition 334 1000 5000 \<and>
   calculateNPTPosition 0 1000 5000 = 0 \<and>
   float64_round (of_int 5000) = of_int 5000 \<and> (5000::int) \<le> 2 ^ 53 \<and>
   calculateNPTPosition 1000 1000 5000 = 5000 \<and>
   snd (ParseHTTPRangeToNPTRange ''bytes=333-'' 1000 5000) = None \<and>
   Start (fst (ParseHTTPRangeToNPTRange ''bytes=333-'' 1000 5000)) =
     calculateNPTPosition (StartByte (fst (ParseHTTPRangeToNPTRange ''bytes=333-'' 1000 5000)))
       1000 5000"
proof -
  have f: "float64_round (of_int 5000) = of_int 5000"
    by (rule float64_round_int_small) simp_all
  have p: "snd (ParseHTTPRangeToNPTRange ''bytes=333-'' 1000 5000) = None"
    by code_simp
  have a: "(0::int) < 1000" "(0::int) \<le> 5000" "(5000::int) < 2 ^ 63 - 512"
    by simp_all
  have b: "(0::int) \<le> 333 \<and> (333::int) < 334 \<and> (334::int) \<le> 1000" "(5000::int) \<le> 2 ^ 53"
    by simp_all
  from position_monotone_exact [OF a, of 333 334 "''bytes=333-''"] f p a b
  show ?thesis by blast
qed

text \<open>
  C2 as stated fails outside these durations: with a negative duration the time
  decreases; the duration \<open>2^53 + 1\<close> is no \<open>float64\<close> value, and offset \<open>totalSize\<close>
  gives \<open>2^53\<close>; from \<open>2^63 - 512\<close> on the \<open>float64\<close> is \<open>2^63\<close>, which does not fit.
\<close>

theorem position_counterexample:
  "calculateNPTPosition 1 1 (- 1) < calculateNPTPosition 0 1 (- 1) \<and>
   calculateNPTPosition 1 1 (2 ^ 53 + 1) = 2 ^ 53 \<and>
   calculateNPTPosition 1 1 (2 ^ 63 - 512) < calculateNPTPosition 0 1 (2 ^ 63 - 512)"
  by code_simp

end
